theory Spec2Isabelle
  imports Complex_Main "HOL-Library.AList" "HOL-Library.Log_Nat"
begin

section \<open>Python values, exceptions and numpy arrays\<close>

text \<open>
  The estimator in \<^verbatim>\<open>pyzoo/zoo/orca/learn/openvino/estimator.py\<close> is glue between numpy,
  Spark and a native inference engine. Exceptions are values of \<open>exn\<close>; a computation that
  may raise has type \<open>exn + 'b\<close> with \<open>Inl\<close> for the exception. An exception raised by a
  Python function running inside a Spark task reaches the driver wrapped in a job failure,
  written \<open>WorkerFailure\<close> here.
\<close>

datatype exn =
    ValueError
  | TypeError
  | AssertionError
  | IndexError
  | AttributeError
  | KeyError
  | UnboundLocalError
  | ZeroDivisionError
  | OverflowError
  | NotImplementedError
  | OSError
  | ParseError
  | SparkError
  | EngineError
  | WorkerFailure exn

definition bindE :: "exn + 'b \<Rightarrow> ('b \<Rightarrow> exn + 'c) \<Rightarrow> exn + 'c" where
  "bindE m f = (case m of Inl e \<Rightarrow> Inl e | Inr v \<Rightarrow> f v)"

fun mapE :: "('b \<Rightarrow> exn + 'c) \<Rightarrow> 'b list \<Rightarrow> exn + 'c list" where
  "mapE f [] = Inr []"
| "mapE f (x # xs) = bindE (f x) (\<lambda>y. bindE (mapE f xs) (\<lambda>ys. Inr (y # ys)))"

text \<open>
  A numpy array is its shape and its elements in row-major order; the shape \<open>[]\<close> is a
  zero-dimensional array or a numpy scalar. Only arrays whose buffer has as many elements
  as the shape says are arrays of numpy (\<open>wf_ndarray\<close>).
\<close>

datatype 'a ndarray = NdArray (shape: "nat list") (flat: "'a list")

definition wf_ndarray :: "'a ndarray \<Rightarrow> bool" where
  "wf_ndarray a = (length (flat a) = prod_list (shape a))"

datatype 'a pyval =
    Arr "'a ndarray"
  | PyList "'a pyval list"
  | PyTuple "'a pyval list"
  | PyDict "(string \<times> 'a pyval) list"
  | PyInt int
  | PyStr string
  | PyNone

text \<open>\<^verbatim>\<open>len(a)\<close> of an array: the first dimension; a zero-dimensional array has none.\<close>

definition nd_len :: "'a ndarray \<Rightarrow> exn + nat" where
  "nd_len a = (case shape a of [] \<Rightarrow> Inl TypeError | n # _ \<Rightarrow> Inr n)"

text \<open>\<^verbatim>\<open>a.shape[0]\<close>: indexing the empty shape tuple raises IndexError.\<close>

definition nd_shape0 :: "'a ndarray \<Rightarrow> exn + nat" where
  "nd_shape0 a = (case shape a of [] \<Rightarrow> Inl IndexError | n # _ \<Rightarrow> Inr n)"

fun py_len :: "'a pyval \<Rightarrow> exn + nat" where
  "py_len (Arr a) = nd_len a"
| "py_len (PyList xs) = Inr (length xs)"
| "py_len (PyTuple xs) = Inr (length xs)"
| "py_len (PyDict kvs) = Inr (length kvs)"
| "py_len (PyStr s) = Inr (length s)"
| "py_len (PyInt i) = Inl TypeError"
| "py_len PyNone = Inl TypeError"

fun py_shape0 :: "'a pyval \<Rightarrow> exn + nat" where
  "py_shape0 (Arr a) = nd_shape0 a"
| "py_shape0 v = Inl AttributeError"

fun is_ndarray :: "'a pyval \<Rightarrow> bool" where
  "is_ndarray (Arr a) = True"
| "is_ndarray v = False"

text \<open>
  \<^verbatim>\<open>a[st:end]\<close> along the first axis, for \<open>0 \<le> st \<le> end\<close>: the rows \<open>st\<close> up to
  \<open>end\<close>, clipped to the rows there are. Slicing a zero-dimensional array raises IndexError.
\<close>

definition nd_slice :: "'a ndarray \<Rightarrow> nat \<Rightarrow> nat \<Rightarrow> exn + 'a ndarray" where
  "nd_slice a st en =
     (case shape a of
        [] \<Rightarrow> Inl IndexError
      | n # rest \<Rightarrow>
          let lo = min st n; hi = max lo (min en n); w = prod_list rest
          in Inr (NdArray ((hi - lo) # rest) (take ((hi - lo) * w) (drop (lo * w) (flat a)))))"

text \<open>Iterating over an array yields its rows; a zero-dimensional array is not iterable.\<close>

definition nd_rows :: "'a ndarray \<Rightarrow> exn + 'a ndarray list" where
  "nd_rows a =
     (case shape a of
        [] \<Rightarrow> Inl TypeError
      | n # rest \<Rightarrow>
          let w = prod_list rest
          in Inr (map (\<lambda>i. NdArray rest (take w (drop (i * w) (flat a)))) [0..<n]))"

subsection \<open>\<^verbatim>\<open>math.ceil(n / b)\<close>\<close>

text \<open>
  \<^verbatim>\<open>n / b\<close> is Python's true division of two integers: it raises ZeroDivisionError for
  a zero divisor, and otherwise gives the double nearest to the exact quotient, ties going
  to the even mantissa, or raises OverflowError when that is beyond the largest double. A
  double is written \<open>Double m s\<close> for the number \<open>m * 2 ^ s\<close>. The quotient \<open>p / q\<close> of
  two positive integers lies in the binade \<open>2 ^ e \<le> p / q < 2 ^ (e + 1)\<close>; the mantissa
  has 53 bits, so the doubles of that binade are the multiples of \<open>2 ^ (e - 52)\<close>, and
  below \<open>2 ^ - 1022\<close> they are the multiples of \<open>2 ^ - 1074\<close>, down to zero.
  \<^verbatim>\<open>math.ceil\<close> gives the least integer not below the double. Here \<open>pow2_le_quot e p q\<close>
  says \<open>2 ^ e \<le> p / q\<close>, \<open>binade p q\<close> is that exponent \<open>e\<close>, found from the bit lengths
  of \<open>p\<close> and \<open>q\<close>, and \<open>round_half_even num den\<close> is the integer nearest to
  \<open>num / den\<close>.
\<close>

datatype double = Double (mantissa: int) (exponent: int)

definition pow2_le_quot :: "int \<Rightarrow> int \<Rightarrow> int \<Rightarrow> bool" where
  "pow2_le_quot e p q = (if 0 \<le> e then q * 2 ^ nat e \<le> p else q \<le> p * 2 ^ nat (- e))"

definition binade :: "int \<Rightarrow> int \<Rightarrow> int" where
  "binade p q = (let d = bitlen p - bitlen q in if pow2_le_quot d p q then d else d - 1)"

definition round_half_even :: "int \<Rightarrow> int \<Rightarrow> int" where
  "round_half_even num den =
     (let f = num div den; r = num mod den
      in if 2 * r < den then f
         else if den < 2 * r then f + 1
         else if even f then f else f + 1)"

definition round_to_double :: "int \<Rightarrow> int \<Rightarrow> exn + double" where
  "round_to_double p q =
     (let e = max (binade p q) (- 1022);
          s = e - 52;
          m = (if 0 \<le> s then round_half_even p (q * 2 ^ nat s)
               else round_half_even (p * 2 ^ nat (- s)) q)
      in if 0 \<le> s \<and> 2 ^ 1024 \<le> m * 2 ^ nat s then Inl OverflowError else Inr (Double m s))"

definition true_divide :: "int \<Rightarrow> int \<Rightarrow> exn + double" where
  "true_divide a b =
     (if b = 0 then Inl ZeroDivisionError
      else if a = 0 then Inr (Double 0 0)
      else bindE (round_to_double \<bar>a\<bar> \<bar>b\<bar>) (\<lambda>d.
             Inr (if (a < 0) = (b < 0) then d else Double (- mantissa d) (exponent d))))"

definition math_ceil :: "double \<Rightarrow> int" where
  "math_ceil d =
     (if 0 \<le> exponent d then mantissa d * 2 ^ nat (exponent d)
      else - ((- mantissa d) div 2 ^ nat (- exponent d)))"

definition ceil_div :: "int \<Rightarrow> int \<Rightarrow> exn + int" where
  "ceil_div n b = bindE (true_divide n b) (\<lambda>d. Inr (math_ceil d))"

subsection \<open>\<^verbatim>\<open>np.array_split\<close>\<close>

text \<open>
  numpy computes \<^verbatim>\<open>Neach_section, extras = divmod(Ntotal, Nsections)\<close>, the section sizes
  \<^verbatim>\<open>[0] + extras * [Neach_section + 1] + (Nsections - extras) * [Neach_section]\<close>, their
  cumulative sums \<^verbatim>\<open>div_points\<close>, and returns the slices
  \<^verbatim>\<open>ary[div_points[i]:div_points[i + 1]]\<close>. A number of sections below one raises ValueError.
\<close>

definition section_sizes :: "nat \<Rightarrow> nat \<Rightarrow> nat list" where
  "section_sizes Ntotal Nsections =
     (let Neach_section = Ntotal div Nsections; extras = Ntotal mod Nsections
      in 0 # replicate extras (Neach_section + 1) @ replicate (Nsections - extras) Neach_section)"

fun cumsum :: "nat \<Rightarrow> nat list \<Rightarrow> nat list" where
  "cumsum acc [] = []"
| "cumsum acc (k # ks) = (acc + k) # cumsum (acc + k) ks"

definition array_split :: "'a ndarray \<Rightarrow> int \<Rightarrow> exn + 'a ndarray list" where
  "array_split ary indices_or_sections =
     bindE (nd_shape0 ary) (\<lambda>Ntotal.
       if indices_or_sections \<le> 0 then Inl ValueError
       else
         let Nsections = nat indices_or_sections;
             div_points = cumsum 0 (section_sizes Ntotal Nsections)
         in mapE (\<lambda>i. nd_slice ary (div_points ! i) (div_points ! (i + 1))) [0..<Nsections])"

subsection \<open>\<^verbatim>\<open>np.concatenate(arrays, axis=0)\<close>\<close>

text \<open>
  An empty list, a zero-dimensional array, or arrays that differ in a dimension other than
  the first raise ValueError; otherwise the rows are put one after the other.
\<close>

definition np_concatenate :: "'a ndarray list \<Rightarrow> exn + 'a ndarray" where
  "np_concatenate arrays =
     (case arrays of
        [] \<Rightarrow> Inl ValueError
      | a # _ \<Rightarrow>
          (case shape a of
             [] \<Rightarrow> Inl ValueError
           | _ # rest \<Rightarrow>
               if list_all (\<lambda>x. shape x \<noteq> [] \<and> tl (shape x) = rest) arrays
               then Inr (NdArray (sum_list (map (\<lambda>x. hd (shape x)) arrays) # rest)
                                 (concat (map flat arrays)))
               else Inl ValueError))"

section \<open>Spark datasets\<close>

text \<open>
  An RDD is the list of its partitions, each the list of its elements. The model gives the
  elements an RDD has once it is computed, and the failure of the job that computes it;
  Spark itself defers the computation to the first action (or, for an eager
  \<^verbatim>\<open>SparkXShards\<close>, to its construction). A running Spark context is assumed:
  \<^verbatim>\<open>init_nncontext()\<close> returns it.
\<close>

type_synonym 'e rdd = "'e list list"

text \<open>
  \<^verbatim>\<open>sc.parallelize(c, numSlices)\<close>: slice \<open>i\<close> holds the elements from position
  \<open>i * len(c) div numSlices\<close> up to \<open>(i + 1) * len(c) div numSlices\<close>. PySpark first
  groups the elements in batches of \<^verbatim>\<open>max(1, min(len(c) // numSlices, 1024))\<close>, a division
  by zero for no slices; the batches have one element each when there are fewer than twice
  as many elements as slices, as in every call of \<^verbatim>\<open>predict\<close>, where
  \<open>len(c) = numSlices\<close>.
\<close>

definition parallelize :: "'e list \<Rightarrow> int \<Rightarrow> exn + 'e rdd" where
  "parallelize c numSlices =
     (if numSlices = 0 then Inl ZeroDivisionError
      else if numSlices < 0 then Inl SparkError
      else
        let k = nat numSlices; n = length c
        in Inr (map (\<lambda>i. take ((i + 1) * n div k - i * n div k) (drop (i * n div k) c)) [0..<k]))"

definition collect :: "'e rdd \<Rightarrow> 'e list" where
  "collect r = concat r"

text \<open>\<^verbatim>\<open>rdd.map(f)\<close>: \<open>f\<close> runs in the tasks, so what it raises fails the job.\<close>

definition rdd_map :: "('e \<Rightarrow> exn + 'f) \<Rightarrow> 'e rdd \<Rightarrow> exn + 'f rdd" where
  "rdd_map f r = (case mapE (mapE f) r of Inl e \<Rightarrow> Inl (WorkerFailure e) | Inr r' \<Rightarrow> Inr r')"

text \<open>\<^verbatim>\<open>rdd.flatMap(f)\<close>: every element is replaced by the elements \<open>f\<close> yields for it.\<close>

definition rdd_flatMap :: "('e \<Rightarrow> exn + 'f list) \<Rightarrow> 'e rdd \<Rightarrow> exn + 'f rdd" where
  "rdd_flatMap f r =
     (case mapE (mapE f) r of Inl e \<Rightarrow> Inl (WorkerFailure e) | Inr r' \<Rightarrow> Inr (map concat r'))"

text \<open>
  \<^verbatim>\<open>rdd.zip(other)\<close>: PySpark raises ValueError when the numbers of partitions differ,
  and the job fails when two partitions differ in their number of elements.
\<close>

definition rdd_zip :: "'e rdd \<Rightarrow> 'f rdd \<Rightarrow> exn + ('e \<times> 'f) rdd" where
  "rdd_zip r other =
     (if length r \<noteq> length other then Inl ValueError
      else if map length r \<noteq> map length other then Inl SparkError
      else Inr (map (\<lambda>(p, q). zip p q) (zip r other)))"

text \<open>
  The input of \<^verbatim>\<open>predict\<close> and its result: a Spark DataFrame (its rows, by partition), a
  \<^verbatim>\<open>SparkXShards\<close> (its shards, by partition), or a value held by the driver.
\<close>

datatype 'a data =
    DataFrame "'a pyval rdd"
  | SparkXShards "'a pyval rdd"
  | Local "'a pyval"

section \<open>The estimator and what it calls\<close>

datatype engine_api = Load_openvino_ng | Load_openvino

record load_call =
  lc_api :: engine_api
  lc_model_path :: string
  lc_weight_path :: string
  lc_batch_size :: int

text \<open>
  An \<^verbatim>\<open>InferenceModel\<close> is created with the number of concurrent copies it supports and
  holds the arguments of the call that loaded it, if any.
\<close>

record inference_model =
  supported_concurrent_num :: nat
  loaded :: "load_call option"

record estimator =
  node_num :: nat
  core_num :: nat
  path :: string
  batch_size :: int
  model :: inference_model

text \<open>The document \<^verbatim>\<open>xml.etree.ElementTree\<close> parses: an element, its text and its children.\<close>

datatype xml = Element (el_tag: string) (el_text: "string option") (el_children: "xml list")

text \<open>
  What the estimator calls and does not define: the inference engine
  (\<^verbatim>\<open>InferenceModel.load_openvino\<close>, \<^verbatim>\<open>load_openvino_ng\<close>, \<^verbatim>\<open>distributed_predict\<close>, which
  returns one array for each element it is given when it behaves), the cluster
  (\<^verbatim>\<open>get_node_and_core_number\<close>), the file system read by \<^verbatim>\<open>ET.parse\<close>, and the helpers
  \<^verbatim>\<open>dataframe_to_xshards\<close>, \<^verbatim>\<open>convert_predict_rdd_to_dataframe\<close> and
  \<^verbatim>\<open>nest.pack_sequence_as\<close>, whose results the estimator only passes on.
\<close>

record 'a env =
  get_node_and_core_number :: "nat \<times> nat"
  ET_parse :: "string \<Rightarrow> exn + xml"
  engine_load :: "load_call \<Rightarrow> exn option"
  distributed_predict :: "'a pyval rdd \<Rightarrow> exn + 'a ndarray rdd"
  dataframe_to_xshards :: "'a pyval rdd \<Rightarrow> 'a pyval \<Rightarrow> exn + 'a pyval rdd"
  convert_predict_rdd_to_dataframe :: "'a pyval rdd \<Rightarrow> 'a ndarray rdd \<Rightarrow> exn + 'a pyval rdd"
  pack_sequence_as :: "'a pyval \<Rightarrow> 'a pyval list \<Rightarrow> exn + 'a pyval"

section \<open>\<^verbatim>\<open>predict\<close>\<close>

subsection \<open>Sharded and tabular input\<close>

text \<open>
  \<^verbatim>\<open>predict_transform(dict_data, batch_size)\<close> checks one shard and returns its feature.
  A shard that is not a dict, has no key \<^verbatim>\<open>x\<close>, or whose feature has more rows than the
  batch size fails an assertion; a feature that is neither an array nor a list raises
  ValueError.
\<close>

fun check_elems :: "'a pyval list \<Rightarrow> int \<Rightarrow> exn + unit" where
  "check_elems [] b = Inr ()"
| "check_elems (elem # elems) b =
     (case elem of
        Arr a \<Rightarrow>
          bindE (nd_shape0 a) (\<lambda>n.
            if int n \<le> b then check_elems elems b else Inl AssertionError)
      | _ \<Rightarrow> Inl AssertionError)"

definition predict_transform :: "'a pyval \<Rightarrow> int \<Rightarrow> exn + 'a pyval" where
  "predict_transform dict_data b =
     (case dict_data of
        PyDict kvs \<Rightarrow>
          (case map_of kvs ''x'' of
             None \<Rightarrow> Inl AssertionError
           | Some feature_data \<Rightarrow>
               (case feature_data of
                  Arr a \<Rightarrow>
                    bindE (nd_shape0 a) (\<lambda>n.
                      if int n \<le> b then Inr feature_data else Inl AssertionError)
                | PyList elems \<Rightarrow> bindE (check_elems elems b) (\<lambda>_. Inr feature_data)
                | _ \<Rightarrow> Inl ValueError))
      | _ \<Rightarrow> Inl AssertionError)"

text \<open>\<^verbatim>\<open>xshards.transform_shard(func, *args)\<close> maps the function over the shards.\<close>

definition transform_shard :: "('a pyval \<Rightarrow> exn + 'a pyval) \<Rightarrow> 'a pyval rdd \<Rightarrow> exn + 'a pyval rdd" where
  "transform_shard func r = rdd_map func r"

text \<open>\<^verbatim>\<open>shard["x"]\<close>: a dict is looked up; no other value of the model takes a string index.\<close>

fun py_getitem :: "'a pyval \<Rightarrow> string \<Rightarrow> exn + 'a pyval" where
  "py_getitem (PyDict kvs) k = (case map_of kvs k of None \<Rightarrow> Inl KeyError | Some v \<Rightarrow> Inr v)"
| "py_getitem (Arr a) k = Inl IndexError"
| "py_getitem v k = Inl TypeError"

text \<open>\<^verbatim>\<open>shard["prediction"] = v\<close>: a dict gets or replaces the key; nothing else of the model can.\<close>

fun py_setitem :: "'a pyval \<Rightarrow> string \<Rightarrow> 'a pyval \<Rightarrow> exn + 'a pyval" where
  "py_setitem (PyDict kvs) k v = Inr (PyDict (AList.update k v kvs))"
| "py_setitem (Arr a) k v = Inl IndexError"
| "py_setitem d k v = Inl TypeError"

definition update_shard :: "'a pyval \<times> 'a ndarray \<Rightarrow> exn + 'a pyval" where
  "update_shard d =
     (case d of (shard, y) \<Rightarrow>
        bindE (py_getitem shard ''x'') (\<lambda>x.
        bindE (py_len x) (\<lambda>data_length.
        bindE (nd_slice y 0 data_length) (\<lambda>pred.
        py_setitem shard ''prediction'' (Arr pred)))))"

definition delete_useless_result :: "'a pyval \<times> 'a ndarray \<Rightarrow> exn + 'a ndarray" where
  "delete_useless_result d =
     (case d of (shard, y) \<Rightarrow>
        bindE (py_getitem shard ''x'') (\<lambda>x.
        bindE (py_len x) (\<lambda>data_length.
        nd_slice y 0 data_length)))"

definition predict_xshards :: "'a env \<Rightarrow> estimator \<Rightarrow> 'a pyval rdd \<Rightarrow> exn + 'a data" where
  "predict_xshards env self d =
     bindE (transform_shard (\<lambda>s. predict_transform s (batch_size self)) d) (\<lambda>transformed_data.
     bindE (distributed_predict env transformed_data) (\<lambda>result_rdd.
     bindE (rdd_zip d result_rdd) (\<lambda>zipped.
     bindE (rdd_map update_shard zipped) (\<lambda>shards.
     Inr (SparkXShards shards)))))"

definition predict_dataframe ::
  "'a env \<Rightarrow> estimator \<Rightarrow> 'a pyval rdd \<Rightarrow> 'a pyval \<Rightarrow> exn + 'a data" where
  "predict_dataframe env self d feature_cols =
     bindE (dataframe_to_xshards env d feature_cols) (\<lambda>xshards.
     bindE (transform_shard (\<lambda>s. predict_transform s (batch_size self)) xshards) (\<lambda>transformed_data.
     bindE (distributed_predict env transformed_data) (\<lambda>result_rdd.
     bindE (rdd_zip xshards result_rdd) (\<lambda>zipped.
     bindE (rdd_map delete_useless_result zipped) (\<lambda>result_rdd'.
     bindE (rdd_flatMap nd_rows result_rdd') (\<lambda>rows.
     bindE (convert_predict_rdd_to_dataframe env d rows) (\<lambda>df.
     Inr (DataFrame df))))))))"

subsection \<open>Arrays and lists of arrays held by the driver\<close>

text \<open>
  The trimming loop \<^verbatim>\<open>result_arr_list[i] = result_arr_list[i][:data_length_list[i]]\<close> over
  \<^verbatim>\<open>range(0, len(result_arr_list))\<close>. The list of lengths is \<open>None\<close> while the name is
  unbound.
\<close>

fun trim_results :: "'a ndarray list \<Rightarrow> nat list option \<Rightarrow> nat \<Rightarrow> exn + 'a ndarray list" where
  "trim_results [] data_length_list i = Inr []"
| "trim_results (r # rs) data_length_list i =
     (case data_length_list of
        None \<Rightarrow> Inl UnboundLocalError
      | Some lens \<Rightarrow>
          if i < length lens
          then bindE (nd_slice r 0 (lens ! i)) (\<lambda>r'.
               bindE (trim_results rs data_length_list (i + 1)) (\<lambda>rs'. Inr (r' # rs')))
          else Inl IndexError)"

text \<open>Lines 164 to 169: predict the chunks, collect, trim and concatenate the results.\<close>

definition reassemble ::
  "'a env \<Rightarrow> 'a pyval rdd \<Rightarrow> nat list option \<Rightarrow> exn + 'a data" where
  "reassemble env data_rdd data_length_list =
     bindE (distributed_predict env data_rdd) (\<lambda>result_rdd.
     bindE (trim_results (collect result_rdd) data_length_list 0) (\<lambda>result_arr_list.
     bindE (np_concatenate result_arr_list) (\<lambda>result_arr.
     Inr (Local (Arr result_arr)))))"

text \<open>
  The array branch up to \<^verbatim>\<open>sc.parallelize\<close>: the number of chunks, the chunks and their
  lengths.
\<close>

definition ndarray_chunks :: "estimator \<Rightarrow> 'a ndarray \<Rightarrow> exn + (int \<times> 'a ndarray list \<times> nat list)" where
  "ndarray_chunks self d =
     bindE (nd_len d) (\<lambda>n.
     bindE (ceil_div (int n) (batch_size self)) (\<lambda>split_num.
     bindE (array_split d split_num) (\<lambda>arrays.
     bindE (mapE nd_len arrays) (\<lambda>data_length_list.
     Inr (split_num, arrays, data_length_list)))))"

definition predict_ndarray :: "'a env \<Rightarrow> estimator \<Rightarrow> 'a ndarray \<Rightarrow> exn + 'a data" where
  "predict_ndarray env self d =
     bindE (ndarray_chunks self d) (\<lambda>(split_num, arrays, data_length_list).
     bindE (parallelize (map Arr arrays) split_num) (\<lambda>data_rdd.
     reassemble env data_rdd (Some data_length_list)))"

text \<open>
  Modelled from the spec: \<^verbatim>\<open>zoo.util.nest.flatten\<close> is not among the sources. The spec
  speaks of a list of arrays as input; \<open>nest_flatten\<close> gives the leaves of nested lists,
  tuples and dicts (a dict by its keys in increasing order) from left to right, and a
  value that is none of them is its own only leaf.
\<close>

fun str_le :: "string \<Rightarrow> string \<Rightarrow> bool" where
  "str_le [] t = True"
| "str_le (c # cs) [] = False"
| "str_le (c # cs) (d # ds) =
     ((of_char c :: nat) < of_char d \<or> (c = d \<and> str_le cs ds))"

fun insert_key :: "string \<times> 'b \<Rightarrow> (string \<times> 'b) list \<Rightarrow> (string \<times> 'b) list" where
  "insert_key kv [] = [kv]"
| "insert_key kv (kv' # kvs) =
     (if str_le (fst kv) (fst kv') then kv # kv' # kvs else kv' # insert_key kv kvs)"

definition sorted_items :: "(string \<times> 'b) list \<Rightarrow> (string \<times> 'b) list" where
  "sorted_items kvs = foldr insert_key kvs []"

fun nest_flatten :: "'a pyval \<Rightarrow> 'a pyval list" where
  "nest_flatten (PyList xs) = concat (map nest_flatten xs)"
| "nest_flatten (PyTuple xs) = concat (map nest_flatten xs)"
| "nest_flatten (PyDict kvs) =
     concat (map snd (sorted_items (map (\<lambda>kv. (fst kv, nest_flatten (snd kv))) kvs)))"
| "nest_flatten v = [v]"

text \<open>
  The loops of lines 147 to 159. \<^verbatim>\<open>data_to_be_rdd\<close> starts as \<^verbatim>\<open>split_num\<close> empty
  lists. For every flattened \<^verbatim>\<open>x\<close>, after the two assertions, \<^verbatim>\<open>x\<close> is split and part
  \<^verbatim>\<open>idx\<close> is appended to \<^verbatim>\<open>data_to_be_rdd[idx]\<close>; then line 159 binds
  \<^verbatim>\<open>data_length_list\<close> to \<^verbatim>\<open>list(map(lambda arr: len(arr), x_part))\<close>, the lengths of the
  rows of that one part.
\<close>

record 'a split_state =
  data_to_be_rdd :: "'a pyval list list"
  data_length_list :: "nat list option"

fun append_parts :: "'a ndarray list \<Rightarrow> nat \<Rightarrow> 'a split_state \<Rightarrow> exn + 'a split_state" where
  "append_parts [] idx st = Inr st"
| "append_parts (x_part # x_parts) idx st =
     (if idx < length (data_to_be_rdd st)
      then
        bindE (nd_rows x_part) (\<lambda>rows.
        bindE (mapE nd_len rows) (\<lambda>lens.
        append_parts x_parts (idx + 1)
          (st\<lparr>data_to_be_rdd :=
                 (data_to_be_rdd st)[idx := data_to_be_rdd st ! idx @ [Arr x_part]],
               data_length_list := Some lens\<rparr>)))
      else Inl IndexError)"

fun split_flattened ::
  "'a pyval list \<Rightarrow> nat \<Rightarrow> int \<Rightarrow> 'a split_state \<Rightarrow> exn + 'a split_state" where
  "split_flattened [] data_length split_num st = Inr st"
| "split_flattened (x # xs) data_length split_num st =
     (case x of
        Arr a \<Rightarrow>
          bindE (nd_len a) (\<lambda>n.
            if n = data_length
            then bindE (array_split a split_num) (\<lambda>x_parts.
                 bindE (append_parts x_parts 0 st) (\<lambda>st'.
                 split_flattened xs data_length split_num st'))
            else Inl AssertionError)
      | _ \<Rightarrow> Inl AssertionError)"

text \<open>The list branch up to \<^verbatim>\<open>nest.pack_sequence_as\<close>: lines 143 to 159.\<close>

definition list_chunks :: "estimator \<Rightarrow> 'a pyval \<Rightarrow> exn + (int \<times> 'a split_state)" where
  "list_chunks self d =
     (case nest_flatten d of
        [] \<Rightarrow> Inl IndexError
      | x0 # _ \<Rightarrow>
          bindE (py_len x0) (\<lambda>data_length.
          bindE (py_shape0 x0) (\<lambda>n0.
          bindE (ceil_div (int n0) (batch_size self)) (\<lambda>split_num.
          bindE (split_flattened (nest_flatten d) data_length split_num
                   \<lparr>data_to_be_rdd = replicate (nat split_num) [], data_length_list = None\<rparr>)
            (\<lambda>st. Inr (split_num, st))))))"

definition predict_list :: "'a env \<Rightarrow> estimator \<Rightarrow> 'a pyval \<Rightarrow> exn + 'a data" where
  "predict_list env self d =
     bindE (list_chunks self d) (\<lambda>(split_num, st).
     bindE (mapE (pack_sequence_as env d) (data_to_be_rdd st)) (\<lambda>packed.
     bindE (parallelize packed split_num) (\<lambda>data_rdd.
     reassemble env data_rdd (data_length_list st))))"

subsection \<open>The dispatcher\<close>

fun predict :: "'a env \<Rightarrow> estimator \<Rightarrow> 'a data \<Rightarrow> 'a pyval \<Rightarrow> exn + 'a data" where
  "predict env self (DataFrame d) feature_cols = predict_dataframe env self d feature_cols"
| "predict env self (SparkXShards d) feature_cols = predict_xshards env self d"
| "predict env self (Local (Arr a)) feature_cols = predict_ndarray env self a"
| "predict env self (Local (PyList xs)) feature_cols = predict_list env self (PyList xs)"
| "predict env self (Local v) feature_cols = Inl ValueError"

section \<open>Construction and loading\<close>

subsection \<open>\<^verbatim>\<open>root.find('./layers/layer/output/port/dim[1]')\<close>\<close>

text \<open>
  ElementPath follows the path one step at a time: a name selects, in document order, the
  children with that tag of every element selected so far, and the predicate \<^verbatim>\<open>[1]\<close>
  keeps of the selected \<^verbatim>\<open>dim\<close> elements the one that is the first \<^verbatim>\<open>dim\<close> child of its
  parent. \<^verbatim>\<open>find\<close> returns the first element selected, or \<^verbatim>\<open>None\<close>.
\<close>

definition select_child :: "string \<Rightarrow> xml list \<Rightarrow> xml list" where
  "select_child t result = concat (map (\<lambda>elem. filter (\<lambda>e. el_tag e = t) (el_children elem)) result)"

definition select_first_child :: "string \<Rightarrow> xml list \<Rightarrow> xml list" where
  "select_first_child t result =
     concat (map (\<lambda>elem. take 1 (filter (\<lambda>e. el_tag e = t) (el_children elem))) result)"

definition find_batch_dim :: "xml \<Rightarrow> xml option" where
  "find_batch_dim root_elem =
     (case select_first_child ''dim''
             (select_child ''port''
               (select_child ''output''
                 (select_child ''layer''
                   (select_child ''layers'' [root_elem])))) of
        [] \<Rightarrow> None
      | shape_item # _ \<Rightarrow> Some shape_item)"

subsection \<open>\<^verbatim>\<open>int(shape_item.text)\<close>\<close>

text \<open>
  \<^verbatim>\<open>int\<close> of a string: surrounding whitespace is dropped, then comes an optional sign and
  decimal digits, with single underscores allowed between digits; anything else raises
  ValueError. The text of an element without text is \<^verbatim>\<open>None\<close>, and \<^verbatim>\<open>int(None)\<close> raises
  TypeError. Only ASCII whitespace and digits are modelled.
\<close>

definition is_space :: "char \<Rightarrow> bool" where
  "is_space c = (of_char c \<in> {9, 10, 11, 12, 13, 28, 29, 30, 31, 32 :: nat})"

definition is_digit :: "char \<Rightarrow> bool" where
  "is_digit c = (48 \<le> (of_char c :: nat) \<and> (of_char c :: nat) \<le> 57)"

definition strip :: "string \<Rightarrow> string" where
  "strip s = rev (dropWhile is_space (rev (dropWhile is_space s)))"

fun parse_digits :: "string \<Rightarrow> nat \<Rightarrow> nat option" where
  "parse_digits [] acc = Some acc"
| "parse_digits (c # cs) acc =
     (if c = CHR ''_''
      then (case cs of
              [] \<Rightarrow> None
            | d # _ \<Rightarrow> if is_digit d then parse_digits cs acc else None)
      else if is_digit c then parse_digits cs (10 * acc + (of_char c - 48))
      else None)"

definition py_int :: "string \<Rightarrow> exn + int" where
  "py_int s =
     (let t = strip s;
          neg = (case t of [] \<Rightarrow> False | c # _ \<Rightarrow> c = CHR ''-'');
          body = (case t of [] \<Rightarrow> [] | c # r \<Rightarrow> if c = CHR ''-'' \<or> c = CHR ''+'' then r else t)
      in case body of
           [] \<Rightarrow> Inl ValueError
         | c # _ \<Rightarrow>
             if is_digit c
             then (case parse_digits body 0 of
                     None \<Rightarrow> Inl ValueError
                   | Some v \<Rightarrow> Inr (if neg then - int v else int v))
             else Inl ValueError)"

definition py_int_text :: "string option \<Rightarrow> exn + int" where
  "py_int_text t = (case t of None \<Rightarrow> Inl TypeError | Some s \<Rightarrow> py_int s)"

subsection \<open>\<^verbatim>\<open>model_path[:model_path.rindex(".")] + ".bin"\<close>\<close>

fun last_index :: "string \<Rightarrow> char \<Rightarrow> nat option" where
  "last_index [] c = None"
| "last_index (x # xs) c =
     (case last_index xs c of
        Some i \<Rightarrow> Some (i + 1)
      | None \<Rightarrow> if x = c then Some 0 else None)"

definition rindex :: "string \<Rightarrow> char \<Rightarrow> exn + nat" where
  "rindex s c = (case last_index s c of None \<Rightarrow> Inl ValueError | Some i \<Rightarrow> Inr i)"

definition weight_path :: "string \<Rightarrow> exn + string" where
  "weight_path model_path = bindE (rindex model_path CHR ''.'') (\<lambda>i. Inr (take i model_path @ ''.bin''))"

subsection \<open>\<^verbatim>\<open>__init__\<close>, \<^verbatim>\<open>from_openvino\<close> and \<^verbatim>\<open>load\<close>\<close>

text \<open>
  Lines 47 to 56 and 202 to 211, the same in both methods: the value assigned to
  \<^verbatim>\<open>self.batch_size\<close>.
\<close>

definition infer_batch_size :: "'a env \<Rightarrow> string \<Rightarrow> int \<Rightarrow> exn + int" where
  "infer_batch_size env model_path b =
     (if b \<noteq> 0 then Inr b
      else
        bindE (ET_parse env model_path) (\<lambda>root_elem.
          case find_batch_dim root_elem of
            None \<Rightarrow> Inl ValueError
          | Some shape_item \<Rightarrow> py_int_text (el_text shape_item)))"

text \<open>\<^verbatim>\<open>__init__\<close> returns the estimator it built, or raises and builds none.\<close>

definition init :: "'a env \<Rightarrow> string \<Rightarrow> int \<Rightarrow> exn + estimator" where
  "init env model_path b =
     (case get_node_and_core_number env of (nn, cn) \<Rightarrow>
        bindE (infer_batch_size env model_path b) (\<lambda>bs.
        bindE (weight_path model_path) (\<lambda>wp.
          let call = \<lparr>lc_api = Load_openvino_ng, lc_model_path = model_path,
                      lc_weight_path = wp, lc_batch_size = bs\<rparr>
          in case engine_load env call of
               Some e \<Rightarrow> Inl e
             | None \<Rightarrow>
                 Inr \<lparr>node_num = nn, core_num = cn, path = model_path, batch_size = bs,
                      model = \<lparr>supported_concurrent_num = cn, loaded = Some call\<rparr>\<rparr>)))"

definition from_openvino :: "'a env \<Rightarrow> string \<Rightarrow> int \<Rightarrow> exn + estimator" where
  "from_openvino env model_path b = init env model_path b"

text \<open>
  \<^verbatim>\<open>load\<close> assigns to the attributes of an existing estimator one after the other, so it
  returns the exception raised, if any, and the estimator as it is then.
\<close>

definition load :: "'a env \<Rightarrow> estimator \<Rightarrow> string \<Rightarrow> int \<Rightarrow> exn option \<times> estimator" where
  "load env self model_path b =
     (case get_node_and_core_number env of (nn, cn) \<Rightarrow>
        (let self1 = self\<lparr>node_num := nn, core_num := cn, path := model_path\<rparr>
         in (case infer_batch_size env model_path b of
               Inl e \<Rightarrow> (Some e, self1)
             | Inr bs \<Rightarrow>
                 (let self2 = self1\<lparr>batch_size := bs,
                                    model := \<lparr>supported_concurrent_num = cn, loaded = None\<rparr>\<rparr>
                  in (case weight_path model_path of
                        Inl e \<Rightarrow> (Some e, self2)
                      | Inr wp \<Rightarrow>
                          (let call = \<lparr>lc_api = Load_openvino, lc_model_path = model_path,
                                       lc_weight_path = wp, lc_batch_size = b\<rparr>
                           in (case engine_load env call of
                                 Some e \<Rightarrow> (Some e, self2)
                               | None \<Rightarrow>
                                   (None, self2\<lparr>model :=
                                      \<lparr>supported_concurrent_num = cn, loaded = Some call\<rparr>\<rparr>))))))))"

section \<open>The methods that are not supported\<close>

text \<open>
  Each of them is the single statement \<^verbatim>\<open>raise NotImplementedError\<close>. A method returns
  what it raised or returned, and the estimator as the call leaves it.
\<close>

definition fit ::
  "estimator \<Rightarrow> 'a data \<Rightarrow> 'a pyval \<Rightarrow> 'a pyval \<Rightarrow> 'a pyval \<Rightarrow> 'a pyval \<Rightarrow> 'a pyval \<Rightarrow> 'a pyval
     \<Rightarrow> (exn + 'a pyval) \<times> estimator" where
  "fit self d epochs bs feature_cols label_cols validation_data checkpoint_trigger =
     (Inl NotImplementedError, self)"

definition evaluate ::
  "estimator \<Rightarrow> 'a data \<Rightarrow> 'a pyval \<Rightarrow> 'a pyval \<Rightarrow> 'a pyval \<Rightarrow> (exn + 'a pyval) \<times> estimator" where
  "evaluate self d bs feature_cols label_cols = (Inl NotImplementedError, self)"

definition get_model :: "estimator \<Rightarrow> (exn + 'a pyval) \<times> estimator" where
  "get_model self = (Inl NotImplementedError, self)"

definition save :: "estimator \<Rightarrow> 'a pyval \<Rightarrow> (exn + 'a pyval) \<times> estimator" where
  "save self model_path = (Inl NotImplementedError, self)"

definition set_tensorboard ::
  "estimator \<Rightarrow> 'a pyval \<Rightarrow> 'a pyval \<Rightarrow> (exn + 'a pyval) \<times> estimator" where
  "set_tensorboard self log_dir app_name = (Inl NotImplementedError, self)"

definition clear_gradient_clipping :: "estimator \<Rightarrow> (exn + 'a pyval) \<times> estimator" where
  "clear_gradient_clipping self = (Inl NotImplementedError, self)"

definition set_constant_gradient_clipping ::
  "estimator \<Rightarrow> 'a pyval \<Rightarrow> 'a pyval \<Rightarrow> (exn + 'a pyval) \<times> estimator" where
  "set_constant_gradient_clipping self mn mx = (Inl NotImplementedError, self)"

definition set_l2_norm_gradient_clipping ::
  "estimator \<Rightarrow> 'a pyval \<Rightarrow> (exn + 'a pyval) \<times> estimator" where
  "set_l2_norm_gradient_clipping self clip_norm = (Inl NotImplementedError, self)"

definition get_train_summary :: "estimator \<Rightarrow> 'a pyval \<Rightarrow> (exn + 'a pyval) \<times> estimator" where
  "get_train_summary self tag = (Inl NotImplementedError, self)"

definition get_validation_summary :: "estimator \<Rightarrow> 'a pyval \<Rightarrow> (exn + 'a pyval) \<times> estimator" where
  "get_validation_summary self tag = (Inl NotImplementedError, self)"

definition load_orca_checkpoint ::
  "estimator \<Rightarrow> 'a pyval \<Rightarrow> 'a pyval \<Rightarrow> (exn + 'a pyval) \<times> estimator" where
  "load_orca_checkpoint self p version = (Inl NotImplementedError, self)"

section \<open>Notions the properties are stated with\<close>

text \<open>
  The sizes of the sections \<^verbatim>\<open>np.array_split\<close> cuts \<open>n\<close> rows into (\<open>section_sizes\<close> without
  its leading zero), and section \<open>i\<close> of an array written out.
\<close>

definition chunk_sizes :: "nat \<Rightarrow> nat \<Rightarrow> nat list" where
  "chunk_sizes n k = replicate (n mod k) (n div k + 1) @ replicate (k - n mod k) (n div k)"

definition chunk_of :: "'a ndarray \<Rightarrow> nat \<Rightarrow> nat \<Rightarrow> 'a ndarray" where
  "chunk_of ary k i =
     NdArray (chunk_sizes (hd (shape ary)) k ! i # tl (shape ary))
       (take (chunk_sizes (hd (shape ary)) k ! i * prod_list (tl (shape ary)))
          (drop (sum_list (take i (chunk_sizes (hd (shape ary)) k)) * prod_list (tl (shape ary)))
             (flat ary)))"

text \<open>All the sections of an array, and the number \<open>\<lceil>n / b\<rceil>\<close> of chunks for \<open>n\<close> rows.\<close>

definition chunks :: "'a ndarray \<Rightarrow> nat \<Rightarrow> 'a ndarray list" where
  "chunks ary k = map (chunk_of ary k) [0..<k]"

definition chunk_count :: "nat \<Rightarrow> int \<Rightarrow> nat" where
  "chunk_count n b = nat \<lceil>real n / real_of_int b\<rceil>"

text \<open>An array whose first dimension has at most \<open>b\<close> rows.\<close>

definition first_dim_le :: "int \<Rightarrow> 'a ndarray \<Rightarrow> bool" where
  "first_dim_le b a = (case shape a of [] \<Rightarrow> False | m # _ \<Rightarrow> int m \<le> b)"

definition chunk_le :: "int \<Rightarrow> 'a pyval \<Rightarrow> bool" where
  "chunk_le b v = (case v of Arr a \<Rightarrow> first_dim_le b a | _ \<Rightarrow> False)"

text \<open>The array a value is, when it is one.\<close>

definition the_array :: "'a pyval \<Rightarrow> 'a ndarray" where
  "the_array v = (case v of Arr a \<Rightarrow> a | _ \<Rightarrow> NdArray [] [])"

text \<open>An array with \<open>n\<close> rows, and one with \<open>n\<close> rows that are arrays themselves.\<close>

definition has_rows :: "nat \<Rightarrow> 'a pyval \<Rightarrow> bool" where
  "has_rows n v = (case v of Arr a \<Rightarrow> (case shape a of [] \<Rightarrow> False | m # _ \<Rightarrow> m = n) | _ \<Rightarrow> False)"

definition has_array_rows :: "nat \<Rightarrow> 'a pyval \<Rightarrow> bool" where
  "has_array_rows n v =
     (case v of
        Arr a \<Rightarrow> (case shape a of [] \<Rightarrow> False | m # rest \<Rightarrow> m = n \<and> rest \<noteq> [])
      | _ \<Rightarrow> False)"

text \<open>
  A feature of at most \<open>b\<close> rows (an array, or a list of such arrays), a shard that is a
  dict with such a feature under \<^verbatim>\<open>x\<close>, that feature, and \<^verbatim>\<open>len(shard["x"])\<close>.
\<close>

definition feature_le :: "int \<Rightarrow> 'a pyval \<Rightarrow> bool" where
  "feature_le b f =
     (case f of Arr a \<Rightarrow> first_dim_le b a | PyList elems \<Rightarrow> list_all (chunk_le b) elems | _ \<Rightarrow> False)"

definition shard_le :: "int \<Rightarrow> 'a pyval \<Rightarrow> bool" where
  "shard_le b s =
     (case s of
        PyDict kvs \<Rightarrow> (case map_of kvs ''x'' of None \<Rightarrow> False | Some f \<Rightarrow> feature_le b f)
      | _ \<Rightarrow> False)"

definition feature_of :: "'a pyval \<Rightarrow> 'a pyval" where
  "feature_of s =
     (case s of
        PyDict kvs \<Rightarrow> (case map_of kvs ''x'' of None \<Rightarrow> PyNone | Some f \<Rightarrow> f)
      | _ \<Rightarrow> PyNone)"

definition x_len :: "'a pyval \<Rightarrow> nat" where
  "x_len s =
     (case feature_of s of Arr a \<Rightarrow> hd (shape a) | PyList elems \<Rightarrow> length elems | _ \<Rightarrow> 0)"

text \<open>
  An output with at least \<^verbatim>\<open>len(shard["x"])\<close> rows, and the shard with the key
  \<^verbatim>\<open>prediction\<close> set to the first \<^verbatim>\<open>len(shard["x"])\<close> rows of the output.
\<close>

definition output_covers :: "'a pyval \<Rightarrow> 'a ndarray \<Rightarrow> bool" where
  "output_covers s y = (case shape y of [] \<Rightarrow> False | m # _ \<Rightarrow> x_len s \<le> m)"

definition with_prediction :: "'a pyval \<Rightarrow> 'a ndarray \<Rightarrow> 'a pyval" where
  "with_prediction s y =
     (case s of
        PyDict kvs \<Rightarrow>
          PyDict (AList.update ''prediction''
                    (Arr (NdArray (x_len s # tl (shape y))
                            (take (x_len s * prod_list (tl (shape y))) (flat y)))) kvs)
      | _ \<Rightarrow> s)"

section \<open>A concrete setting\<close>

text \<open>
  A model description whose first output dimension is 4 under \<^verbatim>\<open>resnet.xml\<close> and
  \<^verbatim>\<open>resnet\<close>, one whose dimension is not a number under \<^verbatim>\<open>broken.xml\<close>; an engine that
  loads every model and answers every element it is given with a full batch of four rows
  of one number, as a model of batch size 4 does for a padded input.
\<close>

definition model_document :: "string \<Rightarrow> xml" where
  "model_document dim_text =
     Element ''net'' None
       [Element ''layers'' None
          [Element ''layer'' None
             [Element ''output'' None
                [Element ''port'' None
                   [Element ''dim'' (Some dim_text) [], Element ''dim'' (Some ''1000'') []]]]]]"

definition example_env :: "nat env" where
  "example_env =
     \<lparr>get_node_and_core_number = (1, 4),
      ET_parse = (\<lambda>p. if p = ''resnet.xml'' \<or> p = ''resnet'' then Inr (model_document ''4'')
                        else if p = ''broken.xml'' then Inr (model_document ''abc'')
                        else Inl OSError),
      engine_load = (\<lambda>call. None),
      distributed_predict = (\<lambda>r. Inr (map (map (\<lambda>v. NdArray [4, 1] [0, 0, 0, 0])) r)),
      dataframe_to_xshards = (\<lambda>d cols. Inr d),
      convert_predict_rdd_to_dataframe = (\<lambda>d r. Inr (map (map Arr) r)),
      pack_sequence_as = (\<lambda>structure flat_sequence. Inr (PyList flat_sequence))\<rparr>"

definition example_estimator :: estimator where
  "example_estimator =
     \<lparr>node_num = 1, core_num = 4, path = ''resnet.xml'', batch_size = 4,
      model = \<lparr>supported_concurrent_num = 4,
               loaded = Some \<lparr>lc_api = Load_openvino_ng, lc_model_path = ''resnet.xml'',
                              lc_weight_path = ''resnet.bin'', lc_batch_size = 4\<rparr>\<rparr>\<rparr>"

section \<open>Auxiliary facts\<close>

lemma bindE_simps [simp]: "bindE (Inl e) f = Inl e" "bindE (Inr v) f = f v"
  by (simp_all add: bindE_def)

lemma mapE_Inr: "(\<And>x. x \<in> set xs \<Longrightarrow> f x = Inr (g x)) \<Longrightarrow> mapE f xs = Inr (map g xs)"
  by (induction xs) simp_all

lemma cumsum_length [simp]: "length (cumsum acc ks) = length ks"
  by (induction ks arbitrary: acc) simp_all

lemma cumsum_nth: "i < length ks \<Longrightarrow> cumsum acc ks ! i = acc + sum_list (take (Suc i) ks)"
proof (induction ks arbitrary: acc i)
  case Nil
  then show ?case by simp
next
  case (Cons k ks)
  show ?case
  proof (cases i)
    case 0
    then show ?thesis by simp
  next
    case (Suc j)
    with Cons.prems have "j < length ks" by simp
    from Cons.IH [OF this, of "acc + k"] Suc show ?thesis by simp
  qed
qed

lemma section_sizes_eq: "section_sizes n k = 0 # chunk_sizes n k"
  by (simp add: section_sizes_def chunk_sizes_def Let_def)

lemma chunk_sizes_length: "0 < k \<Longrightarrow> length (chunk_sizes n k) = k"
  by (simp add: chunk_sizes_def)

lemma chunk_sizes_sum: "0 < k \<Longrightarrow> sum_list (chunk_sizes n k) = n"
proof -
  assume k: "0 < k"
  have r: "n mod k < k" using k by simp
  have "sum_list (chunk_sizes n k) = (n mod k) * (n div k + 1) + (k - n mod k) * (n div k)"
    by (simp add: chunk_sizes_def sum_list_replicate)
  also have "\<dots> = n mod k + (n mod k + (k - n mod k)) * (n div k)"
    by (simp add: algebra_simps)
  also have "\<dots> = n mod k + k * (n div k)" using r by simp
  also have "\<dots> = n" by simp
  finally show ?thesis .
qed

lemma div_points_nth:
  assumes "i \<le> length ks"
  shows "cumsum 0 (0 # ks) ! i = sum_list (take i ks)"
  using cumsum_nth [of i "0 # ks" 0] assms by simp

lemma sum_list_take_le: "sum_list (take i ks) \<le> sum_list (ks :: nat list)"
  by (metis append_take_drop_id le_add1 sum_list_append)

lemma sum_list_take_Suc: "i < length ks \<Longrightarrow> sum_list (take (Suc i) ks) = sum_list (take i ks) + (ks ! i :: nat)"
  by (simp add: take_Suc_conv_app_nth)

lemma nd_slice_div_points:
  assumes sh: "shape ary = n # rest" and k: "0 < k" and i: "i < k"
  shows "nd_slice ary (cumsum 0 (section_sizes n k) ! i) (cumsum 0 (section_sizes n k) ! Suc i)
         = Inr (NdArray (chunk_sizes n k ! i # rest)
                  (take (chunk_sizes n k ! i * prod_list rest)
                     (drop (sum_list (take i (chunk_sizes n k)) * prod_list rest) (flat ary))))"
proof -
  let ?cs = "chunk_sizes n k"
  have len: "length ?cs = k" using k by (rule chunk_sizes_length)
  have lo: "cumsum 0 (section_sizes n k) ! i = sum_list (take i ?cs)"
    using i len div_points_nth [of i ?cs] unfolding section_sizes_eq by simp
  have hi: "cumsum 0 (section_sizes n k) ! Suc i = sum_list (take i ?cs) + ?cs ! i"
    using i len div_points_nth [of "Suc i" ?cs] sum_list_take_Suc [of i ?cs]
    unfolding section_sizes_eq by simp
  have "sum_list (take (Suc i) ?cs) \<le> n"
    using sum_list_take_le [of "Suc i" ?cs] chunk_sizes_sum [OF k, of n] by simp
  then have bound: "sum_list (take i ?cs) + ?cs ! i \<le> n"
    using i len by (simp add: sum_list_take_Suc)
  show ?thesis
    unfolding lo hi using bound sh by (simp add: nd_slice_def Let_def min_def max_def)
qed

lemma array_split_eq:
  assumes sh: "shape ary = n # rest" and k: "0 < k"
  shows "array_split ary k = Inr (map (chunk_of ary (nat k)) [0..<nat k])"
proof -
  have k': "0 < nat k" using k by simp
  have "mapE (\<lambda>i. nd_slice ary (cumsum 0 (section_sizes n (nat k)) ! i)
                      (cumsum 0 (section_sizes n (nat k)) ! (i + 1))) [0..<nat k]
        = Inr (map (chunk_of ary (nat k)) [0..<nat k])"
    by (rule mapE_Inr) (simp add: nd_slice_div_points [OF sh k'] chunk_of_def sh)
  then show ?thesis using sh k by (simp add: array_split_def nd_shape0_def Let_def)
qed

lemma chunk_sizes_bound:
  assumes k: "0 < k" and nb: "n \<le> k * b" and i: "i < k"
  shows "chunk_sizes n k ! i \<le> b"
proof -
  have q: "n div k \<le> b" using nb k
    by (metis div_le_mono nonzero_mult_div_cancel_left less_numeral_extra(3))
  show ?thesis
  proof (cases "n mod k = 0")
    case True
    then show ?thesis using q i by (simp add: chunk_sizes_def)
  next
    case False
    have "k * (n div k) < n" using False by (metis mod_mult_div_eq add.commute less_add_same_cancel1 neq0_conv mult.commute)
    with nb have "k * (n div k) < k * b" by linarith
    then have "n div k < b" using k by simp
    then show ?thesis using i by (auto simp: chunk_sizes_def nth_append)
  qed
qed

lemma round_half_even_le:
  assumes "0 < den" "num \<le> j * den"
  shows "round_half_even num den \<le> j"
proof -
  define f r where "f = num div den" and "r = num mod den"
  have eq: "num = f * den + r" by (simp add: f_def r_def)
  have r: "0 \<le> r" "r < den" using assms(1) by (simp_all add: r_def)
  have rhe: "round_half_even num den =
      (if 2 * r < den then f else if den < 2 * r then f + 1 else if even f then f else f + 1)"
    by (simp add: round_half_even_def Let_def f_def r_def)
  have f: "f \<le> j"
  proof (rule ccontr)
    assume "\<not> f \<le> j"
    then have "j + 1 \<le> f" by simp
    then have "(j + 1) * den \<le> f * den" using assms(1) by (simp add: mult_right_mono)
    moreover have "(j + 1) * den = j * den + den" by (simp add: algebra_simps)
    ultimately show False using eq r assms by linarith
  qed
  show ?thesis
  proof (cases "f = j")
    case True
    with eq assms(2) r have "r = 0" by simp
    with True assms(1) show ?thesis by (simp add: rhe)
  next
    case False
    with f have "f + 1 \<le> j" by simp
    then show ?thesis by (simp add: rhe)
  qed
qed

lemma round_half_even_ge:
  assumes "0 < den" "(2 * j + 1) * den < 2 * num"
  shows "j + 1 \<le> round_half_even num den"
proof -
  define f r where "f = num div den" and "r = num mod den"
  have eq: "num = f * den + r" by (simp add: f_def r_def)
  have r: "0 \<le> r" "r < den" using assms(1) by (simp_all add: r_def)
  have rhe: "round_half_even num den =
      (if 2 * r < den then f else if den < 2 * r then f + 1 else if even f then f else f + 1)"
    by (simp add: round_half_even_def Let_def f_def r_def)
  have ex: "(2 * j + 1) * den = 2 * (j * den) + den" by (simp add: algebra_simps)
  have f: "j \<le> f"
  proof (rule ccontr)
    assume "\<not> j \<le> f"
    then have "f + 1 \<le> j" by simp
    then have "(f + 1) * den \<le> j * den" using assms(1) by (simp add: mult_right_mono)
    moreover have "(f + 1) * den = f * den + den" by (simp add: algebra_simps)
    ultimately show False using eq r assms(1) assms(2) [unfolded ex] by linarith
  qed
  show ?thesis
  proof (cases "f = j")
    case True
    with eq assms(2) [unfolded ex] have "den < 2 * r" by simp
    with True show ?thesis by (simp add: rhe)
  next
    case False
    with f have "j + 1 \<le> f" by simp
    then show ?thesis by (simp add: rhe)
  qed
qed

text \<open>\<open>binade p q\<close> is the exponent \<open>e\<close> with \<open>2 ^ e \<le> p / q < 2 ^ (e + 1)\<close>.\<close>

lemma binade_le:
  assumes p: "0 < p" and q: "0 < q"
  shows "pow2_le_quot (binade p q) p q"
proof (cases "pow2_le_quot (bitlen p - bitlen q) p q")
  case True
  then show ?thesis by (simp add: binade_def)
next
  case False
  let ?bp = "bitlen p" and ?bq = "bitlen q"
  from bitlen_bounds [OF p] have pl: "2 ^ nat (?bp - 1) \<le> p" by simp
  from bitlen_bounds [OF q] have qu: "q < 2 ^ nat ?bq" by simp
  have bp1: "1 \<le> ?bp" and bq1: "1 \<le> ?bq"
    using p q bitlen_eq_zero_iff [of p] bitlen_eq_zero_iff [of q] bitlen_nonneg [of p] bitlen_nonneg [of q]
    by linarith+
  have "pow2_le_quot (?bp - ?bq - 1) p q"
  proof (cases "0 \<le> ?bp - ?bq - 1")
    case True
    have "q * 2 ^ nat (?bp - ?bq - 1) \<le> 2 ^ nat ?bq * 2 ^ nat (?bp - ?bq - 1)"
      using qu by (simp add: mult_right_mono)
    also have "\<dots> = (2::int) ^ (nat ?bq + nat (?bp - ?bq - 1))" by (simp add: power_add)
    also have "nat ?bq + nat (?bp - ?bq - 1) = nat (?bp - 1)" using True bq1 by simp
    finally show ?thesis using pl True by (simp add: pow2_le_quot_def)
  next
    case neg: False
    have "q \<le> 2 ^ nat ?bq" using qu by simp
    also have "nat ?bq = nat (?bp - 1) + nat (- (?bp - ?bq - 1))" using neg bp1 by simp
    also have "(2::int) ^ (nat (?bp - 1) + nat (- (?bp - ?bq - 1)))
               = 2 ^ nat (?bp - 1) * 2 ^ nat (- (?bp - ?bq - 1))" by (simp add: power_add)
    also have "\<dots> \<le> p * 2 ^ nat (- (?bp - ?bq - 1))" using pl by (simp add: mult_right_mono)
    finally show ?thesis using neg by (simp add: pow2_le_quot_def)
  qed
  with False show ?thesis by (simp add: binade_def Let_def)
qed

lemma binade_less:
  assumes p: "0 < p" and q: "0 < q"
  shows "\<not> pow2_le_quot (binade p q + 1) p q"
proof (cases "pow2_le_quot (bitlen p - bitlen q) p q")
  case False
  then show ?thesis by (simp add: binade_def)
next
  case True
  let ?bp = "bitlen p" and ?bq = "bitlen q"
  from bitlen_bounds [OF p] have pu: "p < 2 ^ nat ?bp" by simp
  from bitlen_bounds [OF q] have ql: "2 ^ nat (?bq - 1) \<le> q" by simp
  have bp1: "1 \<le> ?bp" and bq1: "1 \<le> ?bq"
    using p q bitlen_eq_zero_iff [of p] bitlen_eq_zero_iff [of q] bitlen_nonneg [of p] bitlen_nonneg [of q]
    by linarith+
  have "\<not> pow2_le_quot (?bp - ?bq + 1) p q"
  proof (cases "0 \<le> ?bp - ?bq + 1")
    case pos: True
    have "p < 2 ^ nat ?bp" by (rule pu)
    also have "nat ?bp = nat (?bq - 1) + nat (?bp - ?bq + 1)" using pos bq1 by simp
    also have "(2::int) ^ (nat (?bq - 1) + nat (?bp - ?bq + 1))
               = 2 ^ nat (?bq - 1) * 2 ^ nat (?bp - ?bq + 1)" by (simp add: power_add)
    also have "\<dots> \<le> q * 2 ^ nat (?bp - ?bq + 1)" using ql by (simp add: mult_right_mono)
    finally show ?thesis using pos by (simp add: pow2_le_quot_def)
  next
    case neg: False
    have "p * 2 ^ nat (- (?bp - ?bq + 1)) < 2 ^ nat ?bp * 2 ^ nat (- (?bp - ?bq + 1))"
      using pu by simp
    also have "\<dots> = (2::int) ^ (nat ?bp + nat (- (?bp - ?bq + 1)))" by (simp add: power_add)
    also have "nat ?bp + nat (- (?bp - ?bq + 1)) = nat (?bq - 1)" using neg bp1 by simp
    also have "(2::int) ^ nat (?bq - 1) \<le> q" by (rule ql)
    finally show ?thesis using neg by (simp add: pow2_le_quot_def)
  qed
  with True show ?thesis by (simp add: binade_def Let_def)
qed

lemma ceiling_between:
  assumes "0 < T" "(k - 1) * T < m" "m \<le> k * (T::int)"
  shows "- ((- m) div T) = k"
proof -
  have ex: "(k - 1) * T = k * T - T" by (simp add: algebra_simps)
  have "(- m) div T = - k"
  proof (rule int_div_pos_eq [where r = "k * T - m"])
    show "- m = T * - k + (k * T - m)" by (simp add: algebra_simps)
    show "0 \<le> k * T - m" using assms by simp
    show "k * T - m < T" using assms(2) [unfolded ex] by simp
  qed
  then show ?thesis by simp
qed

lemma exact_ceiling_bounds:
  assumes "0 < (q::int)"
  shows "(- ((- p) div q) - 1) * q < p" and "p \<le> - ((- p) div q) * q"
proof -
  define f r where "f = (- p) div q" and "r = (- p) mod q"
  have e: "- p = f * q + r" by (simp add: f_def r_def)
  have m: "0 \<le> r" "r < q" using assms by (simp_all add: r_def)
  have ex: "(- f - 1) * q = - (f * q) - q" "- f * q = - (f * q)" by (simp_all add: algebra_simps)
  show "p \<le> - ((- p) div q) * q" unfolding f_def [symmetric] ex using e m by linarith
  show "(- ((- p) div q) - 1) * q < p" unfolding f_def [symmetric] ex using e m by linarith
qed

lemma ceil_div_exact:
  assumes n: "1 \<le> n" "n < 2 ^ 53" and b: "1 \<le> b" "b < 2 ^ 1075"
  shows "ceil_div (int n) b = Inr (- ((- int n) div b))"
proof -
  let ?p = "int n"
  define k where "k = - ((- ?p) div b)"
  have p: "0 < ?p" "?p < 2 ^ 53" using n by simp_all
  have q: "0 < b" using b by simp
  define e0 where "e0 = binade ?p b"
  define e where "e = max e0 (- 1022)"
  define t where "t = nat (52 - e)"
  have le: "pow2_le_quot e0 ?p b" unfolding e0_def by (rule binade_le [OF p(1) q])
  have e0_52: "e0 \<le> 52"
  proof (rule ccontr)
    assume "\<not> e0 \<le> 52"
    then have ge: "53 \<le> nat e0" "0 \<le> e0" by simp_all
    from le ge have "b * 2 ^ nat e0 \<le> ?p" by (simp add: pow2_le_quot_def)
    moreover have "(2::int) ^ nat e0 \<le> b * 2 ^ nat e0" using q by (simp add: mult_le_cancel_right1)
    ultimately have "(2::int) ^ nat e0 < 2 ^ 53" using p(2) by linarith
    then have "nat e0 < 53" by (rule power_less_imp_less_exp [rotated]) simp
    with ge show False by simp
  qed
  have e52: "e \<le> 52" "- 1022 \<le> e" using e0_52 by (simp_all add: e_def)
  have et: "int t = 52 - e" using e52 by (simp add: t_def)
  have qt: "b < 2 ^ (t + 1)"
  proof (cases "e0 \<le> - 1022")
    case True
    then have "t = 1074" by (simp add: t_def e_def)
    with b show ?thesis by simp
  next
    case False
    then have ee: "e = e0" by (simp add: e_def)
    show ?thesis
    proof (cases "0 \<le> e0")
      case True
      with le have "b * 2 ^ nat e0 \<le> ?p" by (simp add: pow2_le_quot_def)
      with p(2) have "b * 2 ^ nat e0 < 2 ^ 53" by linarith
      also have "(53::nat) = (t + 1) + nat e0" using True e0_52 ee by (simp add: t_def)
      also have "(2::int) ^ ((t + 1) + nat e0) = 2 ^ (t + 1) * 2 ^ nat e0" by (simp add: power_add)
      finally show ?thesis by simp
    next
      case neg: False
      with le have "b \<le> ?p * 2 ^ nat (- e0)" by (simp add: pow2_le_quot_def)
      also have "\<dots> < 2 ^ 53 * 2 ^ nat (- e0)" using p(2) by simp
      also have "\<dots> = (2::int) ^ (53 + nat (- e0))" by (simp add: power_add)
      also have "53 + nat (- e0) = t + 1" using neg ee by (simp add: t_def)
      finally show ?thesis .
    qed
  qed
  define m where "m = round_half_even (?p * 2 ^ t) b"
  note kb = exact_ceiling_bounds [OF q, of ?p, folded k_def]
  have up: "m \<le> k * 2 ^ t"
    unfolding m_def
  proof (rule round_half_even_le [OF q])
    have "?p * 2 ^ t \<le> (k * b) * 2 ^ t" using kb(2) by (rule mult_right_mono) simp
    then show "?p * 2 ^ t \<le> k * 2 ^ t * b" by (simp add: algebra_simps)
  qed
  have lo: "(k - 1) * 2 ^ t < m"
  proof -
    have "1 \<le> ?p - (k - 1) * b" using kb(1) by simp
    then have "(2::int) ^ (t + 1) * 1 \<le> 2 ^ (t + 1) * (?p - (k - 1) * b)"
      by (simp only: mult_le_cancel_left_pos zero_less_power zero_less_numeral)
    with qt have "b < 2 ^ (t + 1) * (?p - (k - 1) * b)" by linarith
    then have "(2 * ((k - 1) * 2 ^ t) + 1) * b < 2 * (?p * 2 ^ t)"
      by (simp add: algebra_simps)
    from round_half_even_ge [OF q this] show ?thesis by (simp add: m_def)
  qed
  have c: "- ((- m) div 2 ^ t) = k"
    by (rule ceiling_between [OF _ lo up]) simp
  have rd: "round_to_double ?p b = Inr (Double m (- int t))"
  proof (cases "t = 0")
    case True
    then have "e = 52" using et by simp
    moreover have "m < 2 ^ 1024"
    proof -
      have "k * b < ?p + b" using kb(1) by (simp add: algebra_simps)
      have "k \<le> ?p"
      proof (rule ccontr)
        assume "\<not> k \<le> ?p"
        then have "?p + 1 \<le> k" by simp
        then have "(?p + 1) * b \<le> k * b" using q by (simp add: mult_right_mono)
        moreover have "?p + b \<le> (?p + 1) * b" using q p(1) by (simp add: algebra_simps mult_le_cancel_right1)
        ultimately show False using \<open>k * b < ?p + b\<close> by linarith
      qed
      with up True p(2) have "m < 2 ^ 53" by simp
      also have "(2::int) ^ 53 \<le> 2 ^ 1024" by simp
      finally show ?thesis .
    qed
    ultimately show ?thesis
      using True by (simp add: round_to_double_def Let_def e_def [symmetric] e0_def [symmetric] m_def)
  next
    case False
    then have "e < 52" using et by simp
    moreover have "nat (52 - e) = t" by (simp add: t_def)
    ultimately show ?thesis
      using et by (simp add: round_to_double_def Let_def e_def [symmetric] e0_def [symmetric] m_def)
  qed
  have "math_ceil (Double m (- int t)) = k"
  proof (cases "t = 0")
    case True
    with c show ?thesis by (simp add: math_ceil_def)
  next
    case False
    with c show ?thesis by (simp add: math_ceil_def)
  qed
  with rd p(1) q show ?thesis by (simp add: ceil_div_def true_divide_def k_def)
qed

lemma ceil_div_pos:
  assumes "1 \<le> n" "n < 2 ^ 53" "1 \<le> b" "b < 2 ^ 1075"
  shows "ceil_div (int n) b = Inr (- ((- int n) div b))"
    and "0 < - ((- int n) div b)"
    and "int n \<le> (- ((- int n) div b)) * b"
proof -
  show "ceil_div (int n) b = Inr (- ((- int n) div b))"
    using assms by (rule ceil_div_exact)
  have "(- int n) div b < 0" using assms by (simp add: div_neg_pos_less0)
  then show "0 < - ((- int n) div b)" by simp
  have "0 < b" using assms by simp
  from exact_ceiling_bounds(2) [OF this, of "int n"]
  show "int n \<le> (- ((- int n) div b)) * b" .
qed

lemma chunk_of_shape: "shape (chunk_of ary k i) = chunk_sizes (hd (shape ary)) k ! i # tl (shape ary)"
  by (simp add: chunk_of_def)

lemma array_split_bounded:
  assumes sh: "shape ary = n # rest" and k: "0 < k" and nb: "int n \<le> k * b"
  shows "\<exists>parts. array_split ary k = Inr parts \<and> length parts = nat k
           \<and> list_all (first_dim_le b) parts
           \<and> list_all (\<lambda>p. tl (shape p) = rest) parts
           \<and> sum_list (map (\<lambda>p. hd (shape p)) parts) = n"
proof -
  have k': "0 < nat k" using k by simp
  have b: "0 \<le> b" using k nb
    by (metis mult_less_0_iff not_less of_nat_0_le_iff order_trans less_le_not_le)
  have "int n \<le> int (nat k * nat b)" using nb k b by simp
  then have nb': "n \<le> nat k * nat b" by (simp only: of_nat_le_iff)
  have bound: "i < nat k \<Longrightarrow> int (chunk_sizes n (nat k) ! i) \<le> b" for i
    using chunk_sizes_bound [OF k' nb', of i] b by linarith
  have "list_all (first_dim_le b) (map (chunk_of ary (nat k)) [0..<nat k])"
    by (simp add: list_all_iff first_dim_le_def chunk_of_shape sh bound)
  moreover have "list_all (\<lambda>p. tl (shape p) = rest) (map (chunk_of ary (nat k)) [0..<nat k])"
    by (simp add: list_all_iff chunk_of_shape sh)
  moreover have "map (\<lambda>p. hd (shape p)) (map (chunk_of ary (nat k)) [0..<nat k])
                 = chunk_sizes n (nat k)"
    by (rule nth_equalityI) (simp_all add: chunk_sizes_length [OF k'] chunk_of_shape sh)
  ultimately show ?thesis
    using array_split_eq [OF sh k] chunk_sizes_sum [OF k', of n] by simp
qed


lemma mapE_nd_len_chunks:
  "mapE nd_len (map (chunk_of d k) [0..<k]) = Inr (map (\<lambda>i. chunk_sizes (hd (shape d)) k ! i) [0..<k])"
proof -
  have "mapE nd_len (map (chunk_of d k) [0..<k]) = Inr (map (\<lambda>a. hd (shape a)) (map (chunk_of d k) [0..<k]))"
    by (rule mapE_Inr) (auto simp: nd_len_def chunk_of_shape)
  then show ?thesis by (simp add: chunk_of_shape comp_def)
qed

lemma ndarray_chunks_eq:
  assumes sh: "shape d = n # rest" and n: "1 \<le> n" and nb: "n < 2 ^ 53"
    and b: "1 \<le> batch_size self" and bb: "batch_size self < 2 ^ 1075"
  shows "ndarray_chunks self d =
           Inr (- ((- int n) div batch_size self),
                map (chunk_of d (nat (- ((- int n) div batch_size self))))
                    [0..<nat (- ((- int n) div batch_size self))],
                chunk_sizes n (nat (- ((- int n) div batch_size self))))"
proof -
  let ?k = "- ((- int n) div batch_size self)"
  note c = ceil_div_pos [OF n nb b bb]
  have k': "0 < nat ?k" using c(2) by simp
  have "map (\<lambda>i. chunk_sizes n (nat ?k) ! i) [0..<nat ?k] = chunk_sizes n (nat ?k)"
    by (rule nth_equalityI) (simp_all add: chunk_sizes_length [OF k'])
  then show ?thesis
    using array_split_eq [OF sh c(2)] mapE_nd_len_chunks [of d "nat ?k"] c(1) sh
    by (simp add: ndarray_chunks_def nd_len_def)
qed

lemma parallelize_one_each:
  assumes "0 < k" "length c = nat k"
  shows "parallelize c k = Inr (map (\<lambda>x. [x]) c)"
proof -
  have "map (\<lambda>i. take ((i + 1) * nat k div nat k - i * nat k div nat k) (drop (i * nat k div nat k) c)) [0..<nat k]
        = map (\<lambda>x. [x]) c"
  proof (rule nth_equalityI)
    show "length (map (\<lambda>i. take ((i + 1) * nat k div nat k - i * nat k div nat k) (drop (i * nat k div nat k) c)) [0..<nat k]) = length (map (\<lambda>x. [x]) c)"
      using assms by simp
  next
    fix i
    assume "i < length (map (\<lambda>i. take ((i + 1) * nat k div nat k - i * nat k div nat k) (drop (i * nat k div nat k) c)) [0..<nat k])"
    then have i: "i < nat k" by simp
    have "take 1 (drop i c) = [c ! i]" using i assms
      by (metis Cons_nth_drop_Suc One_nat_def take0 take_Suc_Cons)
    then show "map (\<lambda>i. take ((i + 1) * nat k div nat k - i * nat k div nat k) (drop (i * nat k div nat k) c)) [0..<nat k] ! i = map (\<lambda>x. [x]) c ! i"
      using i assms by simp
  qed
  then show ?thesis using assms by (simp add: parallelize_def Let_def)
qed

lemma trim_results_ok:
  assumes "list_all2 (\<lambda>y len. \<exists>m. shape y = m # out_rest \<and> len \<le> m) ys (drop i lens)"
  shows "\<exists>ts. trim_results ys (Some lens) i = Inr ts
             \<and> map shape ts = map (\<lambda>len. len # out_rest) (drop i lens)"
  using assms
proof (induction ys arbitrary: i)
  case Nil
  then show ?case by simp
next
  case (Cons y ys)
  from Cons.prems obtain len rest where dr: "drop i lens = len # rest"
    and y: "\<exists>m. shape y = m # out_rest \<and> len \<le> m"
    and ys: "list_all2 (\<lambda>y len. \<exists>m. shape y = m # out_rest \<and> len \<le> m) ys rest"
    by (auto simp: list_all2_Cons1)
  have i: "i < length lens" using dr by (metis drop_all list.distinct(1) not_less)
  have len: "lens ! i = len" and rest: "drop (Suc i) lens = rest"
    using dr i by (simp_all add: Cons_nth_drop_Suc [symmetric])
  from y obtain m where m: "shape y = m # out_rest" "len \<le> m" by blast
  have sl: "\<exists>t. nd_slice y 0 len = Inr t \<and> shape t = len # out_rest"
    using m by (simp add: nd_slice_def Let_def min_def max_def)
  from Cons.IH [of "Suc i"] ys rest obtain ts where
    ts: "trim_results ys (Some lens) (Suc i) = Inr ts"
        "map shape ts = map (\<lambda>len. len # out_rest) rest"
    by auto
  from sl obtain t where t: "nd_slice y 0 len = Inr t" "shape t = len # out_rest" by blast
  show ?case using i len t ts dr by simp
qed

lemma np_concatenate_shapes:
  assumes "map shape ts = map (\<lambda>len. len # out_rest) lens" and "lens \<noteq> []"
  shows "\<exists>buf. np_concatenate ts = Inr (NdArray (sum_list lens # out_rest) buf)"
proof -
  from assms obtain t ts' where ts: "ts = t # ts'" by (cases ts) auto
  from assms obtain l ls where ls: "lens = l # ls" by (cases lens) auto
  have sh: "\<And>x. x \<in> set ts \<Longrightarrow> shape x \<noteq> [] \<and> tl (shape x) = out_rest"
  proof -
    fix x assume "x \<in> set ts"
    then have "shape x \<in> set (map shape ts)" by simp
    then show "shape x \<noteq> [] \<and> tl (shape x) = out_rest" unfolding assms(1) by auto
  qed
  have "map (\<lambda>x. hd (shape x)) ts = map hd (map shape ts)" by simp
  also have "\<dots> = lens" unfolding assms(1) by (simp add: comp_def)
  finally have hd: "map (\<lambda>x. hd (shape x)) ts = lens" .
  have t: "shape t = l # out_rest" using assms(1) ts ls by simp
  have "list_all (\<lambda>x. shape x \<noteq> [] \<and> tl (shape x) = out_rest) ts"
    using sh by (simp add: list_all_iff)
  then show ?thesis
    using hd t unfolding ts np_concatenate_def by simp
qed

text \<open>
  The array branch returns as many rows as the array has, when the engine answers every
  chunk with an output of at least as many rows as the chunk has and the outputs agree in
  their other dimensions.
\<close>

lemma predict_ndarray_rows:
  assumes sh: "shape d = n # rest" and n: "1 \<le> n" and nb: "n < 2 ^ 53"
    and b: "1 \<le> batch_size self" and bb: "batch_size self < 2 ^ 1075"
    and dp: "distributed_predict env
               (map (\<lambda>i. [Arr (chunk_of d (nat (- ((- int n) div batch_size self))) i)])
                    [0..<nat (- ((- int n) div batch_size self))]) = Inr result_rdd"
    and out: "list_all2 (\<lambda>y len. \<exists>m. shape y = m # out_rest \<and> len \<le> m)
                (collect result_rdd) (chunk_sizes n (nat (- ((- int n) div batch_size self))))"
  shows "\<exists>buf. predict env self (Local (Arr d)) feature_cols = Inr (Local (Arr (NdArray (n # out_rest) buf)))"
proof -
  let ?k = "- ((- int n) div batch_size self)"
  note c = ceil_div_pos [OF n nb b bb]
  have k': "0 < nat ?k" using c(2) by simp
  have par: "parallelize (map Arr (map (chunk_of d (nat ?k)) [0..<nat ?k])) ?k
             = Inr (map (\<lambda>i. [Arr (chunk_of d (nat ?k) i)]) [0..<nat ?k])"
    using parallelize_one_each [of ?k "map Arr (map (chunk_of d (nat ?k)) [0..<nat ?k])"] c(2)
    by (simp add: comp_def)
  from trim_results_ok [of out_rest "collect result_rdd" 0 "chunk_sizes n (nat ?k)"] out
  obtain ts where ts: "trim_results (collect result_rdd) (Some (chunk_sizes n (nat ?k))) 0 = Inr ts"
    "map shape ts = map (\<lambda>len. len # out_rest) (chunk_sizes n (nat ?k))"
    by auto
  have ne: "chunk_sizes n (nat ?k) \<noteq> []"
    using chunk_sizes_length [OF k', of n] k' by auto
  from np_concatenate_shapes [OF ts(2) ne] chunk_sizes_sum [OF k', of n]
  obtain buf where buf: "np_concatenate ts = Inr (NdArray (n # out_rest) buf)" by auto
  show ?thesis
    using ndarray_chunks_eq [OF sh n nb b bb] par dp ts(1) buf
    by (simp add: predict_ndarray_def reassemble_def)
qed


lemma list_all_update:
  "list_all P xs \<Longrightarrow> P y \<Longrightarrow> list_all P (xs[i := y])"
  by (induction xs arbitrary: i) (auto split: nat.splits)

lemma mapE_nd_len_rows:
  assumes "shape p = m # r" "r \<noteq> []"
  shows "\<exists>rows lens. nd_rows p = Inr rows \<and> mapE nd_len rows = Inr lens"
proof -
  obtain m' r' where r: "r = m' # r'" using assms(2) by (cases r) auto
  let ?rows = "map (\<lambda>i. NdArray r (take (prod_list r) (drop (i * prod_list r) (flat p)))) [0..<m]"
  have "nd_rows p = Inr ?rows" using assms(1) by (simp add: nd_rows_def Let_def)
  moreover have "mapE nd_len ?rows = Inr (map (\<lambda>a. hd (shape a)) ?rows)"
    by (rule mapE_Inr) (auto simp: nd_len_def r)
  ultimately show ?thesis by blast
qed

lemma append_parts_length:
  "append_parts parts idx st = Inr st' \<Longrightarrow> length (data_to_be_rdd st') = length (data_to_be_rdd st)"
proof (induction parts arbitrary: idx st)
  case Nil
  then show ?case by simp
next
  case (Cons p parts)
  from Cons.prems have idx: "idx < length (data_to_be_rdd st)"
    by (simp split: if_splits)
  from Cons.prems idx obtain rows where rows: "nd_rows p = Inr rows"
    by (cases "nd_rows p") simp_all
  from Cons.prems idx rows obtain lens where lens: "mapE nd_len rows = Inr lens"
    by (cases "mapE nd_len rows") simp_all
  let ?st = "st\<lparr>data_to_be_rdd := (data_to_be_rdd st)[idx := data_to_be_rdd st ! idx @ [Arr p]],
                 data_length_list := Some lens\<rparr>"
  have "append_parts parts (idx + 1) ?st = Inr st'"
    using Cons.prems idx rows lens by simp
  from Cons.IH [OF this] show ?case by simp
qed

lemma append_parts_ok:
  assumes "idx + length parts \<le> length (data_to_be_rdd st)"
    and "list_all (\<lambda>p. \<exists>m r. shape p = m # r \<and> r \<noteq> []) parts"
  shows "\<exists>st'. append_parts parts idx st = Inr st'"
  using assms
proof (induction parts arbitrary: idx st)
  case Nil
  then show ?case by simp
next
  case (Cons p parts)
  from Cons.prems(2) obtain m r where p: "shape p = m # r" "r \<noteq> []" by auto
  from mapE_nd_len_rows [OF p] obtain rows lens where
    rl: "nd_rows p = Inr rows" "mapE nd_len rows = Inr lens" by blast
  have idx: "idx < length (data_to_be_rdd st)" using Cons.prems(1) by simp
  let ?st = "st\<lparr>data_to_be_rdd := (data_to_be_rdd st)[idx := data_to_be_rdd st ! idx @ [Arr p]],
                 data_length_list := Some lens\<rparr>"
  have "idx + 1 + length parts \<le> length (data_to_be_rdd ?st)" using Cons.prems(1) by simp
  from Cons.IH [OF this] Cons.prems(2) obtain st' where
    "append_parts parts (idx + 1) ?st = Inr st'" by auto
  then show ?case using idx rl by simp
qed

lemma split_flattened_ok:
  assumes "list_all (has_array_rows n) xs" and "0 < k" and "length (data_to_be_rdd st) = nat k"
  shows "\<exists>st'. split_flattened xs n k st = Inr st'"
  using assms
proof (induction xs arbitrary: st)
  case Nil
  then show ?case by simp
next
  case (Cons x xs)
  from Cons.prems(1) obtain a rest where x: "x = Arr a" and sh: "shape a = n # rest" and r: "rest \<noteq> []"
    by (auto simp: has_array_rows_def split: pyval.splits list.splits)
  have parts: "array_split a k = Inr (map (chunk_of a (nat k)) [0..<nat k])"
    using array_split_eq [OF sh Cons.prems(2)] .
  have "list_all (\<lambda>p. \<exists>m r. shape p = m # r \<and> r \<noteq> []) (map (chunk_of a (nat k)) [0..<nat k])"
    using r sh by (simp add: list_all_iff chunk_of_shape)
  from append_parts_ok [of 0 _ st, OF _ this] Cons.prems(3) obtain st1 where
    st1: "append_parts (map (chunk_of a (nat k)) [0..<nat k]) 0 st = Inr st1" by auto
  have "length (data_to_be_rdd st1) = nat k"
    using append_parts_length [OF st1] Cons.prems(3) by simp
  from Cons.IH [OF _ Cons.prems(2) this] Cons.prems(1) obtain st' where
    "split_flattened xs n k st1 = Inr st'" by auto
  then show ?case using x sh parts st1 by (simp add: nd_len_def)
qed


lemma ceil_div_real:
  "b \<noteq> 0 \<Longrightarrow> - ((- n) div b) = \<lceil>real_of_int n / real_of_int b\<rceil>"
  by (simp add: ceiling_divide_eq_div)

lemma concat_slices:
  "concat (map (\<lambda>i. take (cs ! i * w) (drop (sum_list (take i cs) * w) xs)) [0..<length cs])
     = take (sum_list cs * w) xs"
proof (induction cs rule: rev_induct)
  case Nil
  then show ?case by simp
next
  case (snoc c cs)
  let ?f = "\<lambda>i. take (cs ! i * w) (drop (sum_list (take i cs) * w) xs)"
  let ?g = "\<lambda>i. take ((cs @ [c]) ! i * w) (drop (sum_list (take i (cs @ [c])) * w) xs)"
  have same: "map ?g [0..<length cs] = map ?f [0..<length cs]"
    by (rule map_cong) (simp_all add: nth_append)
  have last: "?g (length cs) = take (c * w) (drop (sum_list cs * w) xs)" by simp
  have "concat (map ?g [0..<length (cs @ [c])]) = concat (map ?g [0..<length cs]) @ ?g (length cs)"
    by simp
  also have "\<dots> = concat (map ?f [0..<length cs]) @ take (c * w) (drop (sum_list cs * w) xs)"
    unfolding same last ..
  also have "\<dots> = take (sum_list cs * w) xs @ take (c * w) (drop (sum_list cs * w) xs)"
    unfolding snoc.IH ..
  also have "\<dots> = take (sum_list cs * w + c * w) xs" by (simp add: take_add)
  also have "sum_list cs * w + c * w = sum_list (cs @ [c]) * w" by (simp add: algebra_simps)
  finally show ?case .
qed

lemma chunks_concat:
  assumes sh: "shape d = n # rest" and k: "0 < k"
  shows "concat (map flat (chunks d k)) = take (n * prod_list rest) (flat d)"
proof -
  have "map flat (chunks d k)
        = map (\<lambda>i. take (chunk_sizes n k ! i * prod_list rest)
                       (drop (sum_list (take i (chunk_sizes n k)) * prod_list rest) (flat d)))
              [0..<length (chunk_sizes n k)]"
    by (simp add: chunks_def chunk_of_def sh chunk_sizes_length [OF k] comp_def)
  then show ?thesis
    using concat_slices [of "chunk_sizes n k" "prod_list rest" "flat d"] chunk_sizes_sum [OF k, of n]
    by simp
qed

lemma chunks_shapes:
  assumes sh: "shape d = n # rest" and k: "0 < k"
  shows "map shape (chunks d k) = map (\<lambda>c. c # rest) (chunk_sizes n k)"
  by (rule nth_equalityI) (simp_all add: chunks_def chunk_sizes_length [OF k] chunk_of_shape sh)

lemma chunk_sizes_pos:
  assumes "0 < k" "k \<le> n" "i < k"
  shows "1 \<le> chunk_sizes n k ! i"
proof -
  have "1 \<le> n div k" using assms by (simp add: Suc_le_eq div_greater_zero_iff)
  then show ?thesis using assms by (auto simp: chunk_sizes_def nth_append)
qed

lemma append_parts_exact:
  assumes "append_parts parts idx st = Inr st'"
    and "idx + length parts \<le> length (data_to_be_rdd st)"
  shows "data_to_be_rdd st' =
           map (\<lambda>i. if idx \<le> i \<and> i < idx + length parts
                     then data_to_be_rdd st ! i @ [Arr (parts ! (i - idx))]
                     else data_to_be_rdd st ! i)
               [0..<length (data_to_be_rdd st)]"
  using assms
proof (induction parts arbitrary: idx st)
  case Nil
  then have "st' = st" by simp
  then show ?case by (auto intro!: nth_equalityI)
next
  case (Cons p parts)
  from Cons.prems have idx: "idx < length (data_to_be_rdd st)" by simp
  from Cons.prems(1) idx obtain rows where rows: "nd_rows p = Inr rows"
    by (cases "nd_rows p") simp_all
  from Cons.prems(1) idx rows obtain lens where lens: "mapE nd_len rows = Inr lens"
    by (cases "mapE nd_len rows") simp_all
  let ?st = "st\<lparr>data_to_be_rdd := (data_to_be_rdd st)[idx := data_to_be_rdd st ! idx @ [Arr p]],
                 data_length_list := Some lens\<rparr>"
  have step: "append_parts parts (idx + 1) ?st = Inr st'"
    using Cons.prems(1) idx rows lens by simp
  have len: "idx + 1 + length parts \<le> length (data_to_be_rdd ?st)" using Cons.prems(2) by simp
  note ih = Cons.IH [OF step len]
  show ?case
  proof (rule nth_equalityI)
    show "length (data_to_be_rdd st') =
          length (map (\<lambda>i. if idx \<le> i \<and> i < idx + length (p # parts)
                     then data_to_be_rdd st ! i @ [Arr ((p # parts) ! (i - idx))]
                     else data_to_be_rdd st ! i) [0..<length (data_to_be_rdd st)])"
      using ih by simp
  next
    fix i assume "i < length (data_to_be_rdd st')"
    then have i: "i < length (data_to_be_rdd st)" using ih by simp
    consider "i < idx" | "i = idx" | "idx < i"
      by linarith
    then show "data_to_be_rdd st' ! i =
          map (\<lambda>i. if idx \<le> i \<and> i < idx + length (p # parts)
                     then data_to_be_rdd st ! i @ [Arr ((p # parts) ! (i - idx))]
                     else data_to_be_rdd st ! i) [0..<length (data_to_be_rdd st)] ! i"
    proof cases
      case 1
      with i ih show ?thesis by simp
    next
      case 2
      with i ih show ?thesis by simp
    next
      case 3
      then have "(p # parts) ! (i - idx) = parts ! (i - (idx + 1))"
        by (simp add: nth_Cons')
      with 3 i ih show ?thesis by auto
    qed
  qed
qed

lemma split_flattened_exact:
  assumes "split_flattened xs n k st = Inr st'" and "0 < k"
    and "length (data_to_be_rdd st) = nat k"
  shows "data_to_be_rdd st' =
           map (\<lambda>i. data_to_be_rdd st ! i @ map (\<lambda>x. Arr (chunk_of (the_array x) (nat k) i)) xs)
               [0..<nat k]"
  using assms(1,3)
proof (induction xs arbitrary: st)
  case Nil
  then have "st' = st" by simp
  with Nil.prems(2) show ?case by (auto intro: nth_equalityI)
next
  case (Cons x xs)
  from Cons.prems(1) obtain a where x: "x = Arr a" by (cases x) simp_all
  from Cons.prems(1) x have len: "nd_len a = Inr n"
    by (cases "nd_len a") (simp_all split: if_splits)
  then obtain rest where sh: "shape a = n # rest"
    by (auto simp: nd_len_def split: list.splits)
  have parts: "array_split a k = Inr (map (chunk_of a (nat k)) [0..<nat k])"
    using array_split_eq [OF sh assms(2)] .
  from Cons.prems(1) x len parts obtain st1 where
    st1: "append_parts (map (chunk_of a (nat k)) [0..<nat k]) 0 st = Inr st1"
         "split_flattened xs n k st1 = Inr st'"
    by (cases "append_parts (map (chunk_of a (nat k)) [0..<nat k]) 0 st") simp_all
  from append_parts_exact [OF st1(1)] Cons.prems(2)
  have d1: "data_to_be_rdd st1 = map (\<lambda>i. data_to_be_rdd st ! i @ [Arr (chunk_of a (nat k) i)]) [0..<nat k]"
    by simp
  then have l1: "length (data_to_be_rdd st1) = nat k" by simp
  from Cons.IH [OF st1(2) l1]
  have "data_to_be_rdd st' =
          map (\<lambda>i. data_to_be_rdd st1 ! i @ map (\<lambda>x. Arr (chunk_of (the_array x) (nat k) i)) xs)
              [0..<nat k]" .
  also have "\<dots> = map (\<lambda>i. data_to_be_rdd st ! i
                               @ map (\<lambda>x. Arr (chunk_of (the_array x) (nat k) i)) (x # xs))
                        [0..<nat k]"
    by (rule map_cong) (simp_all add: d1 x the_array_def)
  finally show ?case .
qed

lemma list_chunks_exact:
  assumes lc: "list_chunks self d = Inr (k, st)"
    and fl: "list_all (has_rows n) (nest_flatten d)"
    and n: "1 \<le> n" and nb: "n < 2 ^ 53"
    and b: "1 \<le> batch_size self" and bb: "batch_size self < 2 ^ 1075"
  shows "k = - ((- int n) div batch_size self)
         \<and> data_to_be_rdd st =
             map (\<lambda>i. map (\<lambda>x. Arr (chunk_of (the_array x) (nat k) i)) (nest_flatten d)) [0..<nat k]"
proof -
  from lc obtain x0 xs where f: "nest_flatten d = x0 # xs"
    by (cases "nest_flatten d") (simp_all add: list_chunks_def)
  from fl f obtain a r where x0: "x0 = Arr a" and sh: "shape a = n # r"
    by (auto simp: has_rows_def split: pyval.splits list.splits)
  note c = ceil_div_pos [OF n nb b bb]
  let ?k = "- ((- int n) div batch_size self)"
  let ?st0 = "\<lparr>data_to_be_rdd = replicate (nat ?k) [], data_length_list = None\<rparr> :: 'a split_state"
  from lc f x0 sh c(1) have k: "k = ?k"
    and sf: "split_flattened (x0 # xs) n ?k ?st0 = Inr st"
    by (cases "split_flattened (x0 # xs) n ?k ?st0";
        simp add: list_chunks_def nd_len_def nd_shape0_def del: split_flattened.simps)+
  from split_flattened_exact [OF sf c(2)] f k show ?thesis by simp
qed


lemma chunk_count_eq:
  assumes "1 \<le> n" "1 \<le> b"
  shows "int (chunk_count n b) = - ((- int n) div b)" and "chunk_count n b = nat (- ((- int n) div b))"
    and "0 < chunk_count n b" and "chunk_count n b \<le> n"
proof -
  have c: "\<lceil>real n / real_of_int b\<rceil> = - ((- int n) div b)"
    using ceil_div_real [of b "int n"] assms by simp
  have "(- int n) div b < 0" using assms by (simp add: div_neg_pos_less0)
  then have pos: "0 < - ((- int n) div b)" by simp
  show k: "chunk_count n b = nat (- ((- int n) div b))" by (simp add: chunk_count_def c)
  with pos show "int (chunk_count n b) = - ((- int n) div b)" by simp
  from k pos show "0 < chunk_count n b" by simp
  have q: "0 < b" using assms by simp
  define k where "k = - ((- int n) div b)"
  have lt: "(k - 1) * b < int n" unfolding k_def by (rule exact_ceiling_bounds(1) [OF q])
  have "k - 1 < int n"
  proof (rule ccontr)
    assume "\<not> k - 1 < int n"
    then have "int n \<le> k - 1" by simp
    moreover have "(k - 1) * 1 \<le> (k - 1) * b"
      using assms pos by (intro mult_left_mono) (simp_all add: k_def)
    ultimately show False using lt by simp
  qed
  then show "chunk_count n b \<le> n" using k by (simp add: k_def)
qed

lemma ceil_div_underflow:
  assumes n: "1 \<le> n" and b: "int n * 2 ^ 1075 \<le> b"
  shows "ceil_div (int n) b = Inr 0"
proof -
  let ?p = "int n"
  have p: "0 < ?p" using n by simp
  have pb: "?p \<le> ?p * 2 ^ 1075" using p by simp
  have q: "0 < b" using p pb b by linarith
  define e0 where "e0 = binade ?p b"
  have le: "pow2_le_quot e0 ?p b" unfolding e0_def by (rule binade_le [OF p q])
  have e0: "e0 \<le> - 1022"
  proof (rule ccontr)
    assume a: "\<not> e0 \<le> - 1022"
    show False
    proof (cases "0 \<le> e0")
      case True
      with le have "b * 2 ^ nat e0 \<le> ?p" by (simp add: pow2_le_quot_def)
      moreover have "b * 1 \<le> b * 2 ^ nat e0" using q by (intro mult_left_mono) simp_all
      moreover have "?p < ?p * 2 ^ 1075" using p by simp
      ultimately show False using b by linarith
    next
      case False
      with le have l: "b \<le> ?p * 2 ^ nat (- e0)" by (simp add: pow2_le_quot_def)
      from a False have "nat (- e0) < 1075" by simp
      then have "(2::int) ^ nat (- e0) < 2 ^ 1075" by (rule power_strict_increasing) simp
      then have "?p * 2 ^ nat (- e0) < ?p * 2 ^ 1075" using p by (rule mult_strict_left_mono)
      with l b show False by linarith
    qed
  qed
  have lt: "?p * 2 ^ 1074 < b"
  proof -
    have "?p * 2 ^ 1074 < ?p * 2 ^ 1075" using p by (intro mult_strict_left_mono) simp_all
    with b show ?thesis by linarith
  qed
  have two: "2 * (?p * 2 ^ 1074) \<le> b"
  proof -
    have "2 * (?p * 2 ^ 1074) = ?p * 2 ^ 1075" by simp
    with b show ?thesis by simp
  qed
  have nonneg: "0 \<le> ?p * 2 ^ 1074" by simp
  have dv: "(?p * 2 ^ 1074) div b = 0" "(?p * 2 ^ 1074) mod b = ?p * 2 ^ 1074"
    using lt nonneg by (simp_all add: div_pos_pos_trivial mod_pos_pos_trivial)
  have m: "round_half_even (?p * 2 ^ 1074) b = 0"
    unfolding round_half_even_def Let_def dv using two by simp
  have "max e0 (- 1022) = - 1022" using e0 by simp
  then have "round_to_double ?p b = Inr (Double 0 (- 1074))"
    using m by (simp add: round_to_double_def Let_def e0_def [symmetric])
  then show ?thesis using p q by (simp add: ceil_div_def true_divide_def math_ceil_def)
qed

text \<open>
  For a batch size of \<open>n * 2 ^ 1075\<close> or more the quotient is the double 0.0: no section is
  asked of \<^verbatim>\<open>np.array_split\<close>, and the array is not predicted.
\<close>

lemma predict_ndarray_underflow:
  assumes sh: "shape d = n # rest" and n: "1 \<le> n" and b: "int n * 2 ^ 1075 \<le> batch_size self"
  shows "ndarray_chunks self d = Inl ValueError"
    and "predict env self (Local (Arr d)) feature_cols = Inl ValueError"
proof -
  show c: "ndarray_chunks self d = Inl ValueError"
    using ceil_div_underflow [OF n b] sh
    by (simp add: ndarray_chunks_def nd_len_def array_split_def nd_shape0_def)
  then show "predict env self (Local (Arr d)) feature_cols = Inl ValueError"
    by (simp add: predict_ndarray_def)
qed

section \<open>The chunks\<close>

text \<open>
  C1, as the code has it. For \<open>1 \<le> n < 2 ^ 53\<close> rows and a batch size
  \<open>1 \<le> b < 2 ^ 1075\<close> the double quotient \<^verbatim>\<open>n / b\<close> has the ceiling of the exact quotient,
  and \<^verbatim>\<open>predict\<close> splits an array of \<open>n\<close> rows with \<^verbatim>\<open>np.array_split\<close> into the
  \<open>\<lceil>n / b\<rceil>\<close> sections of \<open>chunks\<close>: consecutive rows of the array, in order, of at least one
  and at most \<open>b\<close> rows each, \<open>n\<close> rows together; these chunks, one in each partition, are
  what it has predicted. For a list whose flattened elements are arrays of \<open>n\<close> rows each,
  every array is split in the same way, and when the splitting of lines 147 to 159 returns,
  entry \<open>i\<close> of \<^verbatim>\<open>data_to_be_rdd\<close> holds section \<open>i\<close> of every array, in the order of the
  flattened list; it does return when the arrays have two or more dimensions.
\<close>

theorem predict_chunks_bounded:
  fixes d :: "'a ndarray" and xs :: "'a pyval list"
  assumes n: "1 \<le> n" and nb: "n < 2 ^ 53"
    and b: "1 \<le> batch_size self" and bb: "batch_size self < 2 ^ 1075"
  shows "int (chunk_count n (batch_size self)) = \<lceil>real n / real_of_int (batch_size self)\<rceil>
   \<and> length (chunk_sizes n (chunk_count n (batch_size self))) = chunk_count n (batch_size self)
   \<and> sum_list (chunk_sizes n (chunk_count n (batch_size self))) = n
   \<and> list_all (\<lambda>c. 1 \<le> c \<and> int c \<le> batch_size self)
         (chunk_sizes n (chunk_count n (batch_size self)))
   \<and> (shape d = n # rest \<longrightarrow>
         array_split d (int (chunk_count n (batch_size self)))
           = Inr (chunks d (chunk_count n (batch_size self)))
         \<and> map shape (chunks d (chunk_count n (batch_size self)))
           = map (\<lambda>c. c # rest) (chunk_sizes n (chunk_count n (batch_size self)))
         \<and> concat (map flat (chunks d (chunk_count n (batch_size self))))
           = take (n * prod_list rest) (flat d)
         \<and> (wf_ndarray d \<longrightarrow>
               concat (map flat (chunks d (chunk_count n (batch_size self)))) = flat d)
         \<and> ndarray_chunks self d
           = Inr (int (chunk_count n (batch_size self)),
                  chunks d (chunk_count n (batch_size self)),
                  chunk_sizes n (chunk_count n (batch_size self)))
         \<and> predict env self (Local (Arr d)) feature_cols
           = reassemble env (map (\<lambda>c. [Arr c]) (chunks d (chunk_count n (batch_size self))))
               (Some (chunk_sizes n (chunk_count n (batch_size self)))))
   \<and> (list_all (has_rows n) (nest_flatten (PyList xs)) \<longrightarrow>
         list_all (\<lambda>x. x = Arr (the_array x)
                     \<and> array_split (the_array x) (int (chunk_count n (batch_size self)))
                         = Inr (chunks (the_array x) (chunk_count n (batch_size self)))
                     \<and> map (\<lambda>c. hd (shape c)) (chunks (the_array x) (chunk_count n (batch_size self)))
                         = chunk_sizes n (chunk_count n (batch_size self))
                     \<and> concat (map flat (chunks (the_array x) (chunk_count n (batch_size self))))
                         = take (n * prod_list (tl (shape (the_array x)))) (flat (the_array x)))
           (nest_flatten (PyList xs))
         \<and> (\<forall>k st. list_chunks self (PyList xs) = Inr (k, st) \<longrightarrow>
               k = int (chunk_count n (batch_size self))
               \<and> data_to_be_rdd st
                   = map (\<lambda>i. map (\<lambda>x. Arr (chunk_of (the_array x) (chunk_count n (batch_size self)) i))
                                  (nest_flatten (PyList xs)))
                         [0..<chunk_count n (batch_size self)]
               \<and> predict env self (Local (PyList xs)) feature_cols
                   = bindE (mapE (pack_sequence_as env (PyList xs)) (data_to_be_rdd st)) (\<lambda>packed.
                     bindE (parallelize packed k) (\<lambda>data_rdd.
                     reassemble env data_rdd (data_length_list st))))
         \<and> (nest_flatten (PyList xs) \<noteq> []
               \<and> list_all (has_array_rows n) (nest_flatten (PyList xs)) \<longrightarrow>
             (\<exists>st. list_chunks self (PyList xs) = Inr (int (chunk_count n (batch_size self)), st))))"
proof -
  let ?b = "batch_size self"
  let ?K = "chunk_count n ?b"
  let ?k = "- ((- int n) div ?b)"
  note c = ceil_div_pos [OF n nb b bb]
  note cc = chunk_count_eq [OF n b]
  have K: "int ?K = ?k" "nat ?k = ?K" using cc(1,2) by simp_all
  have S1: "int ?K = \<lceil>real n / real_of_int ?b\<rceil>"
    using ceil_div_real [of ?b "int n"] b cc(1) by simp
  have S2: "length (chunk_sizes n ?K) = ?K" by (rule chunk_sizes_length [OF cc(3)])
  have S3: "sum_list (chunk_sizes n ?K) = n" by (rule chunk_sizes_sum [OF cc(3)])
  have nK: "n \<le> ?K * nat ?b"
  proof -
    have "int n \<le> int (?K * nat ?b)" using c(3) K(1) b by simp
    then show ?thesis by (simp only: of_nat_le_iff)
  qed
  have S4: "list_all (\<lambda>c. 1 \<le> c \<and> int c \<le> ?b) (chunk_sizes n ?K)"
    unfolding list_all_length
  proof (intro allI impI)
    fix i assume "i < length (chunk_sizes n ?K)"
    then have i: "i < ?K" using S2 by simp
    from chunk_sizes_bound [OF cc(3) nK i] b have "int (chunk_sizes n ?K ! i) \<le> ?b" by linarith
    with chunk_sizes_pos [OF cc(3) cc(4) i]
    show "1 \<le> chunk_sizes n ?K ! i \<and> int (chunk_sizes n ?K ! i) \<le> ?b" by simp
  qed
  have kpos: "0 < int ?K" using cc(3) by simp
  have split: "array_split a (int ?K) = Inr (chunks a ?K)" if "shape a = n # r" for a :: "'a ndarray" and r
    using array_split_eq [OF that kpos] by (simp add: chunks_def)
  have A: "array_split d (int ?K) = Inr (chunks d ?K)
         \<and> map shape (chunks d ?K) = map (\<lambda>c. c # rest) (chunk_sizes n ?K)
         \<and> concat (map flat (chunks d ?K)) = take (n * prod_list rest) (flat d)
         \<and> (wf_ndarray d \<longrightarrow> concat (map flat (chunks d ?K)) = flat d)
         \<and> ndarray_chunks self d = Inr (int ?K, chunks d ?K, chunk_sizes n ?K)
         \<and> predict env self (Local (Arr d)) feature_cols
           = reassemble env (map (\<lambda>c. [Arr c]) (chunks d ?K)) (Some (chunk_sizes n ?K))"
    if sh: "shape d = n # rest"
  proof -
    note cat = chunks_concat [OF sh cc(3)]
    have wf: "concat (map flat (chunks d ?K)) = flat d" if "wf_ndarray d"
      using that cat sh by (simp add: wf_ndarray_def)
    have ch: "ndarray_chunks self d = Inr (int ?K, chunks d ?K, chunk_sizes n ?K)"
      using ndarray_chunks_eq [OF sh n nb b bb] K by (simp add: chunks_def)
    have len: "length (map Arr (chunks d ?K)) = nat (int ?K)" by (simp add: chunks_def)
    have par: "parallelize (map Arr (chunks d ?K)) (int ?K) = Inr (map (\<lambda>x. [x]) (map Arr (chunks d ?K)))"
      by (rule parallelize_one_each [OF kpos len])
    have "predict env self (Local (Arr d)) feature_cols
            = reassemble env (map (\<lambda>c. [Arr c]) (chunks d ?K)) (Some (chunk_sizes n ?K))"
      using ch par by (simp add: predict_ndarray_def comp_def)
    with split [OF sh] chunks_shapes [OF sh cc(3)] cat wf ch show ?thesis by blast
  qed
  have B1: "x = Arr (the_array x)
            \<and> array_split (the_array x) (int ?K) = Inr (chunks (the_array x) ?K)
            \<and> map (\<lambda>c. hd (shape c)) (chunks (the_array x) ?K) = chunk_sizes n ?K
            \<and> concat (map flat (chunks (the_array x) ?K))
                = take (n * prod_list (tl (shape (the_array x)))) (flat (the_array x))"
    if "has_rows n x" for x :: "'a pyval"
  proof -
    from that obtain a r where x: "x = Arr a" and sh: "shape a = n # r"
      by (auto simp: has_rows_def split: pyval.splits list.splits)
    have "map (\<lambda>c. hd (shape c)) (chunks a ?K) = map hd (map shape (chunks a ?K))" by simp
    also have "\<dots> = chunk_sizes n ?K" unfolding chunks_shapes [OF sh cc(3)] by (simp add: comp_def)
    finally show ?thesis
      using x sh split [OF sh] chunks_concat [OF sh cc(3)] by (simp add: the_array_def)
  qed
  have B2: "k = int ?K
            \<and> data_to_be_rdd st
                = map (\<lambda>i. map (\<lambda>x. Arr (chunk_of (the_array x) ?K i)) (nest_flatten (PyList xs))) [0..<?K]
            \<and> predict env self (Local (PyList xs)) feature_cols
                = bindE (mapE (pack_sequence_as env (PyList xs)) (data_to_be_rdd st)) (\<lambda>packed.
                  bindE (parallelize packed k) (\<lambda>data_rdd.
                  reassemble env data_rdd (data_length_list st)))"
    if fl: "list_all (has_rows n) (nest_flatten (PyList xs))"
      and lc: "list_chunks self (PyList xs) = Inr (k, st)" for k st
  proof -
    from list_chunks_exact [OF lc fl n nb b bb] K
    have "k = int ?K" and "data_to_be_rdd st
          = map (\<lambda>i. map (\<lambda>x. Arr (chunk_of (the_array x) ?K i)) (nest_flatten (PyList xs))) [0..<?K]"
      by simp_all
    moreover have "predict env self (Local (PyList xs)) feature_cols
                = bindE (mapE (pack_sequence_as env (PyList xs)) (data_to_be_rdd st)) (\<lambda>packed.
                  bindE (parallelize packed k) (\<lambda>data_rdd.
                  reassemble env data_rdd (data_length_list st)))"
      using lc by (simp add: predict_list_def)
    ultimately show ?thesis by blast
  qed
  have B3: "\<exists>st. list_chunks self (PyList xs) = Inr (int ?K, st)"
    if ne: "nest_flatten (PyList xs) \<noteq> []"
      and fl: "list_all (has_array_rows n) (nest_flatten (PyList xs))"
  proof -
    from ne obtain x0 ys where f: "nest_flatten (PyList xs) = x0 # ys"
      by (cases "nest_flatten (PyList xs)") auto
    from fl f obtain a r where x0: "x0 = Arr a" and sh: "shape a = n # r"
      by (auto simp: has_array_rows_def split: pyval.splits list.splits)
    let ?st0 = "\<lparr>data_to_be_rdd = replicate (nat ?k) [], data_length_list = None\<rparr> :: 'a split_state"
    from split_flattened_ok [of n "x0 # ys" ?k ?st0] fl f c(2)
    obtain st where "split_flattened (x0 # ys) n ?k ?st0 = Inr st" by auto
    then have "list_chunks self (PyList xs) = Inr (?k, st)"
      using f x0 sh c(1)
      by (simp add: list_chunks_def nd_len_def nd_shape0_def del: split_flattened.simps)
    then show ?thesis using K(1) by auto
  qed
  have B1': "list_all (\<lambda>x. x = Arr (the_array x)
                     \<and> array_split (the_array x) (int ?K) = Inr (chunks (the_array x) ?K)
                     \<and> map (\<lambda>c. hd (shape c)) (chunks (the_array x) ?K) = chunk_sizes n ?K
                     \<and> concat (map flat (chunks (the_array x) ?K))
                         = take (n * prod_list (tl (shape (the_array x)))) (flat (the_array x)))
           (nest_flatten (PyList xs))"
    if fl: "list_all (has_rows n) (nest_flatten (PyList xs))"
    unfolding list_all_length
  proof (intro allI impI)
    fix i assume i: "i < length (nest_flatten (PyList xs))"
    with fl have "has_rows n (nest_flatten (PyList xs) ! i)" unfolding list_all_length by blast
    then show "nest_flatten (PyList xs) ! i = Arr (the_array (nest_flatten (PyList xs) ! i))
         \<and> array_split (the_array (nest_flatten (PyList xs) ! i)) (int ?K)
             = Inr (chunks (the_array (nest_flatten (PyList xs) ! i)) ?K)
         \<and> map (\<lambda>c. hd (shape c)) (chunks (the_array (nest_flatten (PyList xs) ! i)) ?K)
             = chunk_sizes n ?K
         \<and> concat (map flat (chunks (the_array (nest_flatten (PyList xs) ! i)) ?K))
             = take (n * prod_list (tl (shape (the_array (nest_flatten (PyList xs) ! i)))))
                 (flat (the_array (nest_flatten (PyList xs) ! i)))"
      by (rule B1)
  qed
  from S1 S2 S3 S4 A B1' B2 B3 show ?thesis by blast
qed


theorem predict_chunks_bounded_witness:
  "(1::nat) \<le> 6 \<and> (6::nat) < 2 ^ 53
   \<and> 1 \<le> batch_size example_estimator \<and> batch_size example_estimator < 2 ^ 1075
   \<and> chunk_count 6 (batch_size example_estimator) = 2
   \<and> sum_list (chunk_sizes 6 2) = 6
   \<and> shape (NdArray [6] [1, 2, 3, 4, 5, 6 :: nat]) = [6]
   \<and> array_split (NdArray [6] [1, 2, 3, 4, 5, 6 :: nat]) 2
       = Inr [NdArray [3] [1, 2, 3], NdArray [3] [4, 5, 6]]
   \<and> ndarray_chunks example_estimator (NdArray [6] [1, 2, 3, 4, 5, 6 :: nat])
       = Inr (2, [NdArray [3] [1, 2, 3], NdArray [3] [4, 5, 6]], [3, 3])
   \<and> list_all (has_rows 6) (nest_flatten (PyList [Arr (NdArray [6, 1] [1, 2, 3, 4, 5, 6 :: nat])]))
   \<and> (\<exists>st. list_chunks example_estimator (PyList [Arr (NdArray [6, 1] [1, 2, 3, 4, 5, 6 :: nat])])
              = Inr (2, st)
            \<and> data_to_be_rdd st = [[Arr (NdArray [3, 1] [1, 2, 3])], [Arr (NdArray [3, 1] [4, 5, 6])]])"
proof -
  let ?d = "NdArray [6] [1, 2, 3, 4, 5, 6 :: nat]"
  let ?xs = "[Arr (NdArray [6, 1] [1, 2, 3, 4, 5, 6 :: nat])]"
  have bs: "batch_size example_estimator = 4" by (simp add: example_estimator_def)
  have h: "(1::nat) \<le> 6" "(6::nat) < 2 ^ 53"
    "1 \<le> batch_size example_estimator" "batch_size example_estimator < 2 ^ 1075"
    by (simp_all add: bs)
  have cl: "\<lceil>real 6 / real_of_int 4\<rceil> = 2" by (simp add: ceiling_eq_iff)
  have sh: "shape ?d = [6]" by simp
  have fl: "list_all (has_rows 6) (nest_flatten (PyList ?xs))"
    "nest_flatten (PyList ?xs) \<noteq> []"
    "list_all (has_array_rows 6) (nest_flatten (PyList ?xs))"
    by (simp_all add: has_rows_def has_array_rows_def)
  note t = predict_chunks_bounded [OF h, of ?d "[]" undefined undefined ?xs]
  from t cl have K: "chunk_count 6 (batch_size example_estimator) = 2" by (simp add: bs)
  have ev: "chunks ?d 2 = [NdArray [3] [1, 2, 3], NdArray [3] [4, 5, 6]]"
    "chunk_sizes 6 2 = [3, 3]"
    "map (\<lambda>i. map (\<lambda>x. Arr (chunk_of (the_array x) 2 i)) (nest_flatten (PyList ?xs))) [0..<2]
       = [[Arr (NdArray [3, 1] [1, 2, 3])], [Arr (NdArray [3, 1] [4, 5, 6])]]"
    by code_simp+
  from t sh have a: "array_split ?d 2 = Inr (chunks ?d 2)"
    and s: "sum_list (chunk_sizes 6 2) = 6"
    and c: "ndarray_chunks example_estimator ?d = Inr (2, chunks ?d 2, chunk_sizes 6 2)"
    unfolding K by simp_all
  from t fl obtain st where st: "list_chunks example_estimator (PyList ?xs) = Inr (2, st)"
    unfolding K by auto
  with t fl(1) have "data_to_be_rdd st
      = map (\<lambda>i. map (\<lambda>x. Arr (chunk_of (the_array x) 2 i)) (nest_flatten (PyList ?xs))) [0..<2]"
    unfolding K by blast
  with st ev(3) have l: "\<exists>st. list_chunks example_estimator (PyList ?xs) = Inr (2, st)
            \<and> data_to_be_rdd st = [[Arr (NdArray [3, 1] [1, 2, 3])], [Arr (NdArray [3, 1] [4, 5, 6])]]"
    by auto
  from h K s sh a c fl(1) l show ?thesis unfolding ev(1,2) by blast
qed

text \<open>
  C1 as stated fails for a batch size beyond the doubles: with six rows and batch size
  \<open>10 ^ 400\<close> the quotient \<^verbatim>\<open>6 / 10 ** 400\<close> is the double 0.0, \<^verbatim>\<open>math.ceil\<close> gives 0 and
  not \<open>\<lceil>n / b\<rceil> = 1\<close>, and \<^verbatim>\<open>np.array_split\<close> raises ValueError for no sections: the array is
  not split into one chunk.
\<close>

theorem huge_batch_size_not_split:
  "(1::nat) \<le> 6
   \<and> (1::int) \<le> batch_size (example_estimator\<lparr>batch_size := 10 ^ 400\<rparr>)
   \<and> shape (NdArray [6] [1, 2, 3, 4, 5, 6 :: nat]) = [6]
   \<and> ceil_div 6 (10 ^ 400) = Inr 0
   \<and> ndarray_chunks (example_estimator\<lparr>batch_size := 10 ^ 400\<rparr>)
        (NdArray [6] [1, 2, 3, 4, 5, 6 :: nat]) = Inl ValueError
   \<and> predict example_env (example_estimator\<lparr>batch_size := 10 ^ 400\<rparr>)
        (Local (Arr (NdArray [6] [1, 2, 3, 4, 5, 6 :: nat]))) PyNone = Inl ValueError"
proof -
  have big: "int 6 * 2 ^ 1075 \<le> batch_size (example_estimator\<lparr>batch_size := 10 ^ 400\<rparr>)"
    by simp
  have sh: "shape (NdArray [6] [1, 2, 3, 4, 5, 6 :: nat]) = 6 # []" by simp
  have one: "(1::nat) \<le> 6" by simp
  have "ceil_div (int 6) (10 ^ 400) = Inr 0"
    by (rule ceil_div_underflow) simp_all
  then have c: "ceil_div 6 (10 ^ 400) = Inr 0" by simp
  have b1: "(1::int) \<le> batch_size (example_estimator\<lparr>batch_size := 10 ^ 400\<rparr>)" by simp
  note u = predict_ndarray_underflow [OF sh one big]
  from one b1 sh c u(1) u(2) [where env = example_env and feature_cols = PyNone]
  show ?thesis by blast
qed

section \<open>The weight file and the batch size\<close>






lemma init_Inr:
  assumes "init env p b = Inr est"
  shows "\<exists>bs wp. infer_batch_size env p b = Inr bs \<and> weight_path p = Inr wp
           \<and> engine_load env \<lparr>lc_api = Load_openvino_ng, lc_model_path = p,
                                lc_weight_path = wp, lc_batch_size = bs\<rparr> = None
           \<and> est = \<lparr>node_num = fst (get_node_and_core_number env),
                     core_num = snd (get_node_and_core_number env), path = p, batch_size = bs,
                     model = \<lparr>supported_concurrent_num = snd (get_node_and_core_number env),
                              loaded = Some \<lparr>lc_api = Load_openvino_ng, lc_model_path = p,
                                             lc_weight_path = wp, lc_batch_size = bs\<rparr>\<rparr>\<rparr>"
  using assms
  by (cases "infer_batch_size env p b"; cases "weight_path p")
     (auto simp: init_def Let_def split: prod.splits option.splits)

lemma load_None:
  assumes "load env self p b = (None, self')"
  shows "\<exists>bs wp. infer_batch_size env p b = Inr bs \<and> weight_path p = Inr wp
           \<and> engine_load env \<lparr>lc_api = Load_openvino, lc_model_path = p,
                                lc_weight_path = wp, lc_batch_size = b\<rparr> = None
           \<and> self' = \<lparr>node_num = fst (get_node_and_core_number env),
                     core_num = snd (get_node_and_core_number env), path = p, batch_size = bs,
                     model = \<lparr>supported_concurrent_num = snd (get_node_and_core_number env),
                              loaded = Some \<lparr>lc_api = Load_openvino, lc_model_path = p,
                                             lc_weight_path = wp, lc_batch_size = b\<rparr>\<rparr>\<rparr>"
  using assms
  by (cases "infer_batch_size env p b"; cases "weight_path p")
     (auto simp: load_def Let_def split: prod.splits option.splits)



section \<open>Construction, loading and dispatch\<close>

text \<open>
  C5, as the code has it. With a batch size other than 0 the model description is not
  read, and the estimator built has that batch size. With batch size 0 and a description
  that parses, a missing \<^verbatim>\<open>dim\<close> element raises ValueError; a \<^verbatim>\<open>dim\<close> element whose text
  is an integer gives the batch size of the estimator built; and a \<^verbatim>\<open>dim\<close> element whose
  text \<^verbatim>\<open>int\<close> rejects raises what \<^verbatim>\<open>int\<close> raises, a ValueError for a text that is not a
  number. \<^verbatim>\<open>from_openvino\<close> is \<^verbatim>\<open>__init__\<close>.
\<close>

theorem batch_size_argument_or_xml:
  "from_openvino env model_path b = init env model_path b
   \<and> (b \<noteq> 0 \<longrightarrow>
        init (env\<lparr>ET_parse := parse\<rparr>) model_path b = init env model_path b
        \<and> (\<forall>est. init env model_path b = Inr est \<longrightarrow> batch_size est = b))
   \<and> (ET_parse env model_path = Inr doc \<longrightarrow>
        (find_batch_dim doc = None \<longrightarrow> init env model_path 0 = Inl ValueError)
        \<and> (\<forall>shape_item v est.
              find_batch_dim doc = Some shape_item \<and> py_int_text (el_text shape_item) = Inr v
              \<and> init env model_path 0 = Inr est \<longrightarrow> batch_size est = v)
        \<and> (\<forall>shape_item e.
              find_batch_dim doc = Some shape_item \<and> py_int_text (el_text shape_item) = Inl e
              \<longrightarrow> init env model_path 0 = Inl e))"
proof (intro conjI impI allI)
  show "from_openvino env model_path b = init env model_path b"
    by (simp add: from_openvino_def)
next
  assume b: "b \<noteq> 0"
  then have "infer_batch_size (env\<lparr>ET_parse := parse\<rparr>) model_path b = infer_batch_size env model_path b"
    by (simp add: infer_batch_size_def)
  then show "init (env\<lparr>ET_parse := parse\<rparr>) model_path b = init env model_path b"
    by (simp add: init_def)
next
  fix est
  assume b: "b \<noteq> 0" and i: "init env model_path b = Inr est"
  from init_Inr [OF i] b show "batch_size est = b"
    by (auto simp: infer_batch_size_def)
next
  assume "ET_parse env model_path = Inr doc" "find_batch_dim doc = None"
  then show "init env model_path 0 = Inl ValueError"
    by (simp add: init_def infer_batch_size_def split: prod.splits)
next
  fix shape_item v est
  assume p: "ET_parse env model_path = Inr doc"
    and f: "find_batch_dim doc = Some shape_item \<and> py_int_text (el_text shape_item) = Inr v
            \<and> init env model_path 0 = Inr est"
  from f init_Inr [of env model_path 0 est] p show "batch_size est = v"
    by (auto simp: infer_batch_size_def)
next
  fix shape_item e
  assume p: "ET_parse env model_path = Inr doc"
    and f: "find_batch_dim doc = Some shape_item \<and> py_int_text (el_text shape_item) = Inl e"
  then show "init env model_path 0 = Inl e"
    by (simp add: init_def infer_batch_size_def split: prod.splits)
qed

theorem batch_size_argument_or_xml_witness:
  "(8::int) \<noteq> 0 \<and> init example_env ''resnet.xml'' 8 = Inr (example_estimator\<lparr>batch_size := 8,
        model := \<lparr>supported_concurrent_num = 4,
                  loaded = Some \<lparr>lc_api = Load_openvino_ng, lc_model_path = ''resnet.xml'',
                                 lc_weight_path = ''resnet.bin'', lc_batch_size = 8\<rparr>\<rparr>\<rparr>)
   \<and> init (example_env\<lparr>ET_parse := \<lambda>p. Inl OSError\<rparr>) ''resnet.xml'' 8 = init example_env ''resnet.xml'' 8
   \<and> ET_parse example_env ''resnet.xml'' = Inr (model_document ''4'')
   \<and> find_batch_dim (model_document ''4'') = Some (Element ''dim'' (Some ''4'') [])
   \<and> py_int_text (el_text (Element ''dim'' (Some ''4'') [])) = Inr 4
   \<and> init example_env ''resnet.xml'' 0 = Inr example_estimator
   \<and> batch_size example_estimator = 4
   \<and> ET_parse example_env ''broken.xml'' = Inr (model_document ''abc'')
   \<and> find_batch_dim (model_document ''abc'') = Some (Element ''dim'' (Some ''abc'') [])
   \<and> py_int_text (el_text (Element ''dim'' (Some ''abc'') [])) = Inl ValueError
   \<and> init example_env ''broken.xml'' 0 = Inl ValueError"
proof -
  let ?est8 = "example_estimator\<lparr>batch_size := 8,
        model := \<lparr>supported_concurrent_num = 4,
                  loaded = Some \<lparr>lc_api = Load_openvino_ng, lc_model_path = ''resnet.xml'',
                                 lc_weight_path = ''resnet.bin'', lc_batch_size = 8\<rparr>\<rparr>\<rparr>"
  have i8: "init example_env ''resnet.xml'' 8 = Inr ?est8" by code_simp
  have p4: "ET_parse example_env ''resnet.xml'' = Inr (model_document ''4'')" by code_simp
  have f4: "find_batch_dim (model_document ''4'') = Some (Element ''dim'' (Some ''4'') [])" by code_simp
  have t4: "py_int_text (el_text (Element ''dim'' (Some ''4'') [])) = Inr 4" by code_simp
  have i0: "init example_env ''resnet.xml'' 0 = Inr example_estimator" by code_simp
  have pb: "ET_parse example_env ''broken.xml'' = Inr (model_document ''abc'')" by code_simp
  have fb: "find_batch_dim (model_document ''abc'') = Some (Element ''dim'' (Some ''abc'') [])" by code_simp
  have tb: "py_int_text (el_text (Element ''dim'' (Some ''abc'') [])) = Inl ValueError" by code_simp
  from batch_size_argument_or_xml [of example_env "''resnet.xml''" 8 "\<lambda>p. Inl OSError" "model_document ''4''"]
    p4 f4 t4 i0
  have a: "init (example_env\<lparr>ET_parse := \<lambda>p. Inl OSError\<rparr>) ''resnet.xml'' 8 = init example_env ''resnet.xml'' 8"
    and b: "batch_size example_estimator = 4"
    by auto
  from batch_size_argument_or_xml [of example_env "''broken.xml''" 8 "\<lambda>p. Inl OSError" "model_document ''abc''"]
    pb fb tb
  have c: "init example_env ''broken.xml'' 0 = Inl ValueError" by auto
  from i8 p4 f4 t4 i0 pb fb tb a b c show ?thesis by simp
qed

text \<open>
  C5 as stated fails: with batch size 0 the description under \<^verbatim>\<open>broken.xml\<close> has the
  \<^verbatim>\<open>dim\<close> element, and the constructor raises ValueError all the same, from \<^verbatim>\<open>int\<close>.
\<close>

theorem value_error_with_dim_present:
  "ET_parse example_env ''broken.xml'' = Inr (model_document ''abc'')
   \<and> find_batch_dim (model_document ''abc'') \<noteq> None
   \<and> from_openvino example_env ''broken.xml'' 0 = Inl ValueError"
  by code_simp

text \<open>
  After \<^verbatim>\<open>__init__\<close>, and after \<^verbatim>\<open>load\<close> with a batch size other than 0, the engine
  has been given the batch size the estimator keeps.
\<close>

lemma init_forwards_batch_size:
  "init env model_path b = Inr est \<Longrightarrow>
     map_option lc_batch_size (loaded (model est)) = Some (batch_size est)"
  by (drule init_Inr) auto

lemma load_forwards_batch_size:
  "load env self model_path b = (None, self') \<Longrightarrow> b \<noteq> 0 \<Longrightarrow>
     map_option lc_batch_size (loaded (model self')) = Some (batch_size self')"
  by (drule load_None) (auto simp: infer_batch_size_def)

text \<open>
  C10 fails for \<^verbatim>\<open>load\<close> with batch size 0: \<^verbatim>\<open>load\<close> passes its argument on, not the
  attribute it has just set from the description. Here the estimator keeps 4 and the
  engine is given 0.
\<close>

theorem load_forwards_zero:
  "fst (load example_env example_estimator ''resnet.xml'' 0) = None
   \<and> batch_size (snd (load example_env example_estimator ''resnet.xml'' 0)) = 4
   \<and> map_option lc_batch_size (loaded (model (snd (load example_env example_estimator ''resnet.xml'' 0))))
       = Some 0"
  by code_simp

text \<open>
  C6. Every method for training, evaluation, checkpoints and changes to the model raises
  NotImplementedError, whatever its arguments, and leaves the estimator as it was.
\<close>

theorem unsupported_methods_raise:
  "fit self d epochs bs feature_cols label_cols validation_data checkpoint_trigger
     = (Inl NotImplementedError, self)
   \<and> evaluate self d bs feature_cols label_cols = (Inl NotImplementedError, self)
   \<and> get_model self = (Inl NotImplementedError, self)
   \<and> save self model_path = (Inl NotImplementedError, self)
   \<and> set_tensorboard self log_dir app_name = (Inl NotImplementedError, self)
   \<and> clear_gradient_clipping self = (Inl NotImplementedError, self)
   \<and> set_constant_gradient_clipping self mn mx = (Inl NotImplementedError, self)
   \<and> set_l2_norm_gradient_clipping self clip_norm = (Inl NotImplementedError, self)
   \<and> get_train_summary self tag = (Inl NotImplementedError, self)
   \<and> get_validation_summary self tag = (Inl NotImplementedError, self)
   \<and> load_orca_checkpoint self p version = (Inl NotImplementedError, self)"
  by (simp add: fit_def evaluate_def get_model_def save_def set_tensorboard_def
      clear_gradient_clipping_def set_constant_gradient_clipping_def
      set_l2_norm_gradient_clipping_def get_train_summary_def get_validation_summary_def
      load_orca_checkpoint_def)

text \<open>
  C7. An input that is neither a DataFrame, nor a \<^verbatim>\<open>SparkXShards\<close>, nor an array, nor a
  list makes \<^verbatim>\<open>predict\<close> raise ValueError; each of those four goes to its own branch.
\<close>

theorem predict_dispatch:
  "((\<forall>r. d \<noteq> DataFrame r) \<and> (\<forall>r. d \<noteq> SparkXShards r)
      \<and> (\<forall>a. d \<noteq> Local (Arr a)) \<and> (\<forall>xs. d \<noteq> Local (PyList xs))
      \<longrightarrow> predict env self d feature_cols = Inl ValueError)
   \<and> predict env self (DataFrame r) feature_cols = predict_dataframe env self r feature_cols
   \<and> predict env self (SparkXShards r) feature_cols = predict_xshards env self r
   \<and> predict env self (Local (Arr a)) feature_cols = predict_ndarray env self a
   \<and> predict env self (Local (PyList xs)) feature_cols = predict_list env self (PyList xs)"
proof -
  have "predict env self d feature_cols = Inl ValueError"
    if "\<forall>r. d \<noteq> DataFrame r" "\<forall>r. d \<noteq> SparkXShards r"
       "\<forall>a. d \<noteq> Local (Arr a)" "\<forall>xs. d \<noteq> Local (PyList xs)"
  proof (cases d)
    case (Local v)
    with that show ?thesis by (cases v) simp_all
  qed (use that in simp_all)
  then show ?thesis by simp
qed

theorem predict_dispatch_witness:
  "(\<forall>r. Local (PyTuple [Arr (NdArray [1] [7])]) \<noteq> (DataFrame r :: nat data))
   \<and> (\<forall>r. Local (PyTuple [Arr (NdArray [1] [7])]) \<noteq> (SparkXShards r :: nat data))
   \<and> (\<forall>a. Local (PyTuple [Arr (NdArray [1] [7])]) \<noteq> (Local (Arr a) :: nat data))
   \<and> (\<forall>xs. Local (PyTuple [Arr (NdArray [1] [7])]) \<noteq> (Local (PyList xs) :: nat data))
   \<and> predict example_env example_estimator (Local (PyTuple [Arr (NdArray [1] [7])])) PyNone
       = Inl ValueError
   \<and> predict example_env example_estimator (Local (PyStr ''images'')) PyNone = Inl ValueError"
  using predict_dispatch [of "Local (PyTuple [Arr (NdArray [1] [7])])" example_env example_estimator PyNone]
    predict_dispatch [of "Local (PyStr ''images'')" example_env example_estimator PyNone]
  by simp

section \<open>Sharded input\<close>

lemma mapE_Inl: "x \<in> set xs \<Longrightarrow> f x = Inl e0 \<Longrightarrow> \<exists>e. mapE f xs = Inl e"
proof (induction xs)
  case Nil
  then show ?case by simp
next
  case (Cons y ys)
  show ?case
  proof (cases "f y")
    case (Inl e)
    then show ?thesis by simp
  next
    case (Inr v)
    show ?thesis
    proof (cases "x = y")
      case True
      with Inr Cons.prems show ?thesis by simp
    next
      case False
      with Cons obtain e where "mapE f ys = Inl e" by auto
      with Inr show ?thesis by simp
    qed
  qed
qed

lemma mapE_Inr_all: "mapE f xs = Inr ys \<Longrightarrow> x \<in> set xs \<Longrightarrow> \<exists>y. f x = Inr y"
  using mapE_Inl [of x xs f] by (cases "f x") auto

lemma check_elems_iff: "check_elems elems b = Inr () \<longleftrightarrow> list_all (chunk_le b) elems"
proof (induction elems)
  case Nil
  then show ?case by simp
next
  case (Cons elem elems)
  show ?case
  proof (cases elem)
    case (Arr a)
    then show ?thesis using Cons
      by (cases "shape a") (simp_all add: chunk_le_def first_dim_le_def nd_shape0_def)
  qed (simp_all add: chunk_le_def)
qed

lemma predict_transform_iff:
  "predict_transform s b = Inr f \<longleftrightarrow> shard_le b s \<and> f = feature_of s"
proof (cases s)
  case (PyDict kvs)
  show ?thesis
  proof (cases "map_of kvs ''x''")
    case None
    with PyDict show ?thesis by (simp add: predict_transform_def shard_le_def)
  next
    case (Some x)
    show ?thesis
    proof (cases x)
      case (Arr a)
      with PyDict Some show ?thesis
        by (cases "shape a")
           (auto simp: predict_transform_def shard_le_def feature_le_def feature_of_def
                       first_dim_le_def nd_shape0_def)
    next
      case (PyList elems)
      have "check_elems elems b = Inr () \<or> (\<exists>e. check_elems elems b = Inl e)"
        by (cases "check_elems elems b") auto
      with PyDict Some PyList check_elems_iff [of elems b] show ?thesis
        by (auto simp: predict_transform_def shard_le_def feature_le_def feature_of_def)
    qed (use PyDict Some in \<open>simp_all add: predict_transform_def shard_le_def feature_le_def\<close>)
  qed
qed (simp_all add: predict_transform_def shard_le_def)

lemma transform_shard_ok:
  assumes "list_all (list_all (shard_le b)) d"
  shows "transform_shard (\<lambda>s. predict_transform s b) d = Inr (map (map feature_of) d)"
proof -
  have "mapE (mapE (\<lambda>s. predict_transform s b)) d = Inr (map (map feature_of) d)"
  proof (rule mapE_Inr)
    fix p assume "p \<in> set d"
    with assms have p: "list_all (shard_le b) p" by (simp add: list_all_iff)
    show "mapE (\<lambda>s. predict_transform s b) p = Inr (map feature_of p)"
      by (rule mapE_Inr) (use p in \<open>simp add: list_all_iff predict_transform_iff\<close>)
  qed
  then show ?thesis by (simp add: transform_shard_def rdd_map_def)
qed

lemma update_shard_ok:
  assumes "shard_le b s" "output_covers s y"
  shows "update_shard (s, y) = Inr (with_prediction s y)"
proof -
  from assms(1) obtain kvs f where s: "s = PyDict kvs" and x: "map_of kvs ''x'' = Some f"
    and f: "feature_le b f"
    by (auto simp: shard_le_def split: pyval.splits option.splits)
  from assms(2) obtain m r where y: "shape y = m # r" and m: "x_len s \<le> m"
    by (auto simp: output_covers_def split: list.splits)
  have len: "py_len f = Inr (x_len s)"
    using f s x
    by (cases f) (auto simp: feature_le_def first_dim_le_def x_len_def feature_of_def nd_len_def
                       split: list.splits)
  show ?thesis
    using s x len y m
    by (simp add: update_shard_def with_prediction_def nd_slice_def Let_def min_def max_def)
qed

lemma rdd_zip_ok:
  assumes "list_all2 (list_all2 P) d res"
  shows "rdd_zip d res = Inr (map (\<lambda>(p, q). zip p q) (zip d res))"
proof -
  have l: "length d = length res" using assms by (rule list_all2_lengthD)
  have "map length d = map length res"
  proof (rule nth_equalityI)
    show "length (map length d) = length (map length res)" using l by simp
  next
    fix i assume "i < length (map length d)"
    then have i: "i < length d" by simp
    with assms have "list_all2 P (d ! i) (res ! i)" by (rule list_all2_nthD)
    then have "length (d ! i) = length (res ! i)" by (rule list_all2_lengthD)
    with i l show "map length d ! i = map length res ! i" by simp
  qed
  with l show ?thesis by (simp add: rdd_zip_def)
qed

lemma predict_xshards_ok:
  assumes sh: "list_all (list_all (shard_le (batch_size self))) d"
    and dp: "distributed_predict env (map (map feature_of) d) = Inr result_rdd"
    and out: "list_all2 (list_all2 output_covers) d result_rdd"
  shows "predict_xshards env self d =
           Inr (SparkXShards (map (\<lambda>(p, q). map (\<lambda>(s, y). with_prediction s y) (zip p q))
                                  (zip d result_rdd)))"
proof -
  let ?z = "map (\<lambda>(p, q). zip p q) (zip d result_rdd)"
  have "mapE (mapE update_shard) ?z = Inr (map (map (\<lambda>(s, y). with_prediction s y)) ?z)"
  proof (rule mapE_Inr)
    fix pq assume "pq \<in> set ?z"
    then obtain p q where pq: "pq = zip p q" and in_z: "(p, q) \<in> set (zip d result_rdd)" by auto
    from in_z have p: "p \<in> set d" by (rule set_zip_leftD)
    with sh have shp: "list_all (shard_le (batch_size self)) p" by (simp add: list_all_iff)
    from out in_z have outp: "list_all2 output_covers p q"
      by (auto simp: list_all2_iff)
    show "mapE update_shard pq = Inr (map (\<lambda>(s, y). with_prediction s y) pq)"
    proof (rule mapE_Inr)
      fix sy assume sy: "sy \<in> set pq"
      obtain s y where e: "sy = (s, y)" by (cases sy)
      with sy pq have in_p: "(s, y) \<in> set (zip p q)" by simp
      then have "s \<in> set p" by (rule set_zip_leftD)
      with shp have "shard_le (batch_size self) s" by (simp add: list_all_iff)
      moreover from outp in_p have "output_covers s y" by (auto simp: list_all2_iff)
      ultimately show "update_shard sy = Inr ((\<lambda>(s, y). with_prediction s y) sy)"
        using e by (simp add: update_shard_ok)
    qed
  qed
  then have "rdd_map update_shard ?z = Inr (map (map (\<lambda>(s, y). with_prediction s y)) ?z)"
    by (simp add: rdd_map_def)
  moreover have "map (map (\<lambda>(s, y). with_prediction s y)) ?z
                 = map (\<lambda>(p, q). map (\<lambda>(s, y). with_prediction s y) (zip p q)) (zip d result_rdd)"
    by (simp add: comp_def case_prod_beta)
  ultimately show ?thesis
    using transform_shard_ok [OF sh] dp rdd_zip_ok [OF out]
    by (simp add: predict_xshards_def)
qed


text \<open>
  C4. When every shard is a dict whose feature under \<^verbatim>\<open>x\<close> has at most as many rows as
  the batch size, and the engine answers every shard with an output of at least
  \<^verbatim>\<open>len(shard["x"])\<close> rows, \<^verbatim>\<open>predict\<close> returns the shards in the same partitions, each
  with the key \<^verbatim>\<open>prediction\<close> set to the first \<^verbatim>\<open>len(shard["x"])\<close> rows of its output.
\<close>

theorem xshards_prediction_added:
  assumes "list_all (list_all (shard_le (batch_size self))) d"
    and "distributed_predict env (map (map feature_of) d) = Inr result_rdd"
    and "list_all2 (list_all2 output_covers) d result_rdd"
  shows "\<exists>out. predict env self (SparkXShards d) feature_cols = Inr (SparkXShards out)
           \<and> map length out = map length d
           \<and> (\<forall>i j. i < length d \<and> j < length (d ! i) \<longrightarrow>
                 out ! i ! j = with_prediction (d ! i ! j) (result_rdd ! i ! j))"
proof -
  let ?out = "map (\<lambda>(p, q). map (\<lambda>(s, y). with_prediction s y) (zip p q)) (zip d result_rdd)"
  have l: "length d = length result_rdd" using assms(3) by (rule list_all2_lengthD)
  have li: "length (d ! i) = length (result_rdd ! i)" if "i < length d" for i
    using list_all2_nthD [OF assms(3) that] by (rule list_all2_lengthD)
  have "map length ?out = map length d"
    by (rule nth_equalityI) (simp_all add: l li)
  moreover have "?out ! i ! j = with_prediction (d ! i ! j) (result_rdd ! i ! j)"
    if "i < length d" "j < length (d ! i)" for i j
    using that l li [OF that(1)] by simp
  ultimately show ?thesis
    using predict_xshards_ok [OF assms] by simp
qed

theorem xshards_prediction_added_witness:
  "list_all (list_all (shard_le (batch_size example_estimator)))
     [[PyDict [(''x'', Arr (NdArray [3] [1, 2, 3 :: nat]))]],
      [PyDict [(''x'', Arr (NdArray [2] [4, 5])), (''id'', PyInt 7)]]]
   \<and> distributed_predict example_env
        (map (map feature_of)
           [[PyDict [(''x'', Arr (NdArray [3] [1, 2, 3 :: nat]))]],
            [PyDict [(''x'', Arr (NdArray [2] [4, 5])), (''id'', PyInt 7)]]])
      = Inr [[NdArray [4, 1] [0, 0, 0, 0]], [NdArray [4, 1] [0, 0, 0, 0]]]
   \<and> list_all2 (list_all2 output_covers)
        [[PyDict [(''x'', Arr (NdArray [3] [1, 2, 3 :: nat]))]],
         [PyDict [(''x'', Arr (NdArray [2] [4, 5])), (''id'', PyInt 7)]]]
        [[NdArray [4, 1] [0, 0, 0, 0]], [NdArray [4, 1] [0, 0, 0, 0]]]
   \<and> predict example_env example_estimator
        (SparkXShards
           [[PyDict [(''x'', Arr (NdArray [3] [1, 2, 3 :: nat]))]],
            [PyDict [(''x'', Arr (NdArray [2] [4, 5])), (''id'', PyInt 7)]]]) PyNone
      = Inr (SparkXShards
           [[PyDict [(''x'', Arr (NdArray [3] [1, 2, 3])),
                     (''prediction'', Arr (NdArray [3, 1] [0, 0, 0]))]],
            [PyDict [(''x'', Arr (NdArray [2] [4, 5])), (''id'', PyInt 7),
                     (''prediction'', Arr (NdArray [2, 1] [0, 0]))]]])"
proof -
  let ?d = "[[PyDict [(''x'', Arr (NdArray [3] [1, 2, 3 :: nat]))]],
             [PyDict [(''x'', Arr (NdArray [2] [4, 5])), (''id'', PyInt 7)]]]"
  let ?r = "[[NdArray [4, 1] [0, 0, 0, 0 :: nat]], [NdArray [4, 1] [0, 0, 0, 0]]]"
  have h1: "list_all (list_all (shard_le (batch_size example_estimator))) ?d" by code_simp
  have h2: "distributed_predict example_env (map (map feature_of) ?d) = Inr ?r" by code_simp
  have h3: "list_all2 (list_all2 output_covers) ?d ?r"
    by (simp add: output_covers_def x_len_def feature_of_def)
  from xshards_prediction_added [OF h1 h2 h3, of PyNone] obtain out where
    p: "predict example_env example_estimator (SparkXShards ?d) PyNone = Inr (SparkXShards out)"
    and l: "map length out = [1, 1]"
    and e: "\<forall>i j. i < length ?d \<and> j < length (?d ! i) \<longrightarrow>
              out ! i ! j = with_prediction (?d ! i ! j) (?r ! i ! j)"
    by auto
  from l have lo: "length out = 2" "length (out ! 0) = 1" "length (out ! 1) = 1"
    by (auto simp: map_eq_Cons_conv)
  from e have "out ! 0 ! 0 = with_prediction (?d ! 0 ! 0) (?r ! 0 ! 0)"
    and "out ! 1 ! 0 = with_prediction (?d ! 1 ! 0) (?r ! 1 ! 0)"
    by simp_all
  then have e0: "out ! 0 ! 0 = PyDict [(''x'', Arr (NdArray [3] [1, 2, 3])),
                     (''prediction'', Arr (NdArray [3, 1] [0, 0, 0]))]"
    and e1: "out ! 1 ! 0 = PyDict [(''x'', Arr (NdArray [2] [4, 5])), (''id'', PyInt 7),
                     (''prediction'', Arr (NdArray [2, 1] [0, 0]))]"
    by (simp_all add: with_prediction_def x_len_def feature_of_def)
  have "out = [[out ! 0 ! 0], [out ! 1 ! 0]]"
    using lo by (auto simp: list_eq_iff_nth_eq nth_Cons' less_Suc_eq numeral_2_eq_2)
  with e0 e1 have "out = [[PyDict [(''x'', Arr (NdArray [3] [1, 2, 3])),
                     (''prediction'', Arr (NdArray [3, 1] [0, 0, 0]))]],
            [PyDict [(''x'', Arr (NdArray [2] [4, 5])), (''id'', PyInt 7),
                     (''prediction'', Arr (NdArray [2, 1] [0, 0]))]]]"
    by simp
  with p h1 h2 h3 show ?thesis by simp
qed

text \<open>
  C3, as the code has it. \<^verbatim>\<open>predict\<close> does not split the shards of a \<^verbatim>\<open>SparkXShards\<close>: a
  shard whose feature is an array of more rows than the batch size fails the assertion of
  \<^verbatim>\<open>predict_transform\<close>, and \<^verbatim>\<open>predict\<close> then fails whatever the engine would answer. It
  returns predictions only when the feature of every shard has at most as many rows as
  the batch size.
\<close>

theorem oversized_shard_rejected:
  "(s \<in> set (concat d) \<and> s = PyDict kvs \<and> map_of kvs ''x'' = Some (Arr a)
      \<and> shape a = n # rest \<and> batch_size self < int n \<longrightarrow>
      predict_transform s (batch_size self) = Inl AssertionError
      \<and> (\<exists>e. predict env self (SparkXShards d) feature_cols = Inl (WorkerFailure e))
      \<and> predict (env\<lparr>distributed_predict := dp\<rparr>) self (SparkXShards d) feature_cols
           = predict env self (SparkXShards d) feature_cols)
   \<and> (predict env self (SparkXShards d) feature_cols = Inr out \<longrightarrow>
        list_all (list_all (shard_le (batch_size self))) d)"
proof (intro conjI impI)
  assume a: "s \<in> set (concat d) \<and> s = PyDict kvs \<and> map_of kvs ''x'' = Some (Arr a)
      \<and> shape a = n # rest \<and> batch_size self < int n"
  then show pt: "predict_transform s (batch_size self) = Inl AssertionError"
    by (simp add: predict_transform_def nd_shape0_def)
  from a obtain p where p: "p \<in> set d" "s \<in> set p" by auto
  from mapE_Inl [of s p "\<lambda>s. predict_transform s (batch_size self)", OF p(2) pt] obtain e1 where
    "mapE (\<lambda>s. predict_transform s (batch_size self)) p = Inl e1" by blast
  from mapE_Inl [of p d "mapE (\<lambda>s. predict_transform s (batch_size self))", OF p(1) this] obtain e where
    e: "mapE (mapE (\<lambda>s. predict_transform s (batch_size self))) d = Inl e" by blast
  then have t: "transform_shard (\<lambda>s. predict_transform s (batch_size self)) d = Inl (WorkerFailure e)"
    by (simp add: transform_shard_def rdd_map_def)
  then show "\<exists>e. predict env self (SparkXShards d) feature_cols = Inl (WorkerFailure e)"
    by (simp add: predict_xshards_def)
  from t show "predict (env\<lparr>distributed_predict := dp\<rparr>) self (SparkXShards d) feature_cols
           = predict env self (SparkXShards d) feature_cols"
    by (simp add: predict_xshards_def)
next
  assume r: "predict env self (SparkXShards d) feature_cols = Inr out"
  then obtain t where "transform_shard (\<lambda>s. predict_transform s (batch_size self)) d = Inr t"
    by (cases "transform_shard (\<lambda>s. predict_transform s (batch_size self)) d")
       (simp_all add: predict_xshards_def)
  then have m: "\<exists>t. mapE (mapE (\<lambda>s. predict_transform s (batch_size self))) d = Inr t"
    by (auto simp: transform_shard_def rdd_map_def split: sum.splits)
  have "shard_le (batch_size self) s" if "p \<in> set d" "s \<in> set p" for p s
  proof -
    from m obtain t where "mapE (mapE (\<lambda>s. predict_transform s (batch_size self))) d = Inr t" ..
    from mapE_Inr_all [of "mapE (\<lambda>s. predict_transform s (batch_size self))" d t p, OF this that(1)] obtain u where
      "mapE (\<lambda>s. predict_transform s (batch_size self)) p = Inr u" ..
    from mapE_Inr_all [of "\<lambda>s. predict_transform s (batch_size self)" p u s, OF this that(2)] show ?thesis
      by (auto simp: predict_transform_iff)
  qed
  then show "list_all (list_all (shard_le (batch_size self))) d"
    by (simp add: list_all_iff)
qed

theorem oversized_shard_rejected_witness:
  "PyDict [(''x'', Arr (NdArray [5] [1, 2, 3, 4, 5 :: nat]))]
     \<in> set (concat [[PyDict [(''x'', Arr (NdArray [2] [8, 9]))]],
                      [PyDict [(''x'', Arr (NdArray [5] [1, 2, 3, 4, 5]))]]])
   \<and> map_of [(''x'', Arr (NdArray [5] [1, 2, 3, 4, 5 :: nat]))] ''x''
       = Some (Arr (NdArray [5] [1, 2, 3, 4, 5]))
   \<and> shape (NdArray [5] [1, 2, 3, 4, 5 :: nat]) = [5]
   \<and> batch_size example_estimator < int 5
   \<and> (\<exists>e. predict example_env example_estimator
             (SparkXShards [[PyDict [(''x'', Arr (NdArray [2] [8, 9]))]],
                            [PyDict [(''x'', Arr (NdArray [5] [1, 2, 3, 4, 5 :: nat]))]]]) PyNone
           = Inl (WorkerFailure e))
   \<and> predict example_env example_estimator
        (SparkXShards [[PyDict [(''x'', Arr (NdArray [3] [1, 2, 3 :: nat]))]]]) PyNone
      = Inr (SparkXShards [[PyDict [(''x'', Arr (NdArray [3] [1, 2, 3])),
                                    (''prediction'', Arr (NdArray [3, 1] [0, 0, 0]))]]])
   \<and> list_all (list_all (shard_le (batch_size example_estimator)))
        [[PyDict [(''x'', Arr (NdArray [3] [1, 2, 3 :: nat]))]]]"
proof -
  have b: "batch_size example_estimator < int 5" by (simp add: example_estimator_def)
  have ok: "predict example_env example_estimator
        (SparkXShards [[PyDict [(''x'', Arr (NdArray [3] [1, 2, 3 :: nat]))]]]) PyNone
      = Inr (SparkXShards [[PyDict [(''x'', Arr (NdArray [3] [1, 2, 3])),
                                    (''prediction'', Arr (NdArray [3, 1] [0, 0, 0]))]]])"
    by code_simp
  from oversized_shard_rejected
         [of "PyDict [(''x'', Arr (NdArray [5] [1, 2, 3, 4, 5 :: nat]))]"
             "[[PyDict [(''x'', Arr (NdArray [2] [8, 9]))]],
               [PyDict [(''x'', Arr (NdArray [5] [1, 2, 3, 4, 5]))]]]"
             "[(''x'', Arr (NdArray [5] [1, 2, 3, 4, 5]))]" "NdArray [5] [1, 2, 3, 4, 5]" 5 "[]"
             example_estimator example_env PyNone "\<lambda>r. Inl EngineError"] b
  have rej: "\<exists>e. predict example_env example_estimator
             (SparkXShards [[PyDict [(''x'', Arr (NdArray [2] [8, 9]))]],
                            [PyDict [(''x'', Arr (NdArray [5] [1, 2, 3, 4, 5 :: nat]))]]]) PyNone
           = Inl (WorkerFailure e)"
    by simp
  from oversized_shard_rejected
         [of undefined "[[PyDict [(''x'', Arr (NdArray [3] [1, 2, 3 :: nat]))]]]"
             undefined undefined undefined undefined example_estimator example_env PyNone undefined] ok
  have acc: "list_all (list_all (shard_le (batch_size example_estimator)))
        [[PyDict [(''x'', Arr (NdArray [3] [1, 2, 3 :: nat]))]]]"
    by blast
  from b ok rej acc show ?thesis by simp
qed

text \<open>
  C3 as stated fails: with batch size 4, a shard of five rows is not split into chunks of
  at most four rows; \<^verbatim>\<open>predict\<close> fails on the assertion and returns no prediction.
\<close>

theorem shard_of_five_rows_rejected:
  "batch_size example_estimator = 4
   \<and> predict example_env example_estimator
        (SparkXShards [[PyDict [(''x'', Arr (NdArray [5] [1, 2, 3, 4, 5]))]]]) PyNone
      = Inl (WorkerFailure AssertionError)"
  by code_simp

section \<open>Lists of arrays\<close>

lemma split_flattened_has_rows:
  "split_flattened xs n k st = Inr st' \<Longrightarrow> list_all (has_rows n) xs"
proof (induction xs arbitrary: st)
  case Nil
  then show ?case by simp
next
  case (Cons x xs)
  from Cons.prems obtain a where x: "x = Arr a" by (cases x) simp_all
  from Cons.prems x have len: "nd_len a = Inr n"
    by (cases "nd_len a") (simp_all split: if_splits)
  then have hr: "has_rows n x"
    using x by (auto simp: has_rows_def nd_len_def split: list.splits)
  from Cons.prems x len obtain parts where parts: "array_split a k = Inr parts"
    by (cases "array_split a k") simp_all
  from Cons.prems x len parts obtain st1 where
    "append_parts parts 0 st = Inr st1" "split_flattened xs n k st1 = Inr st'"
    by (cases "append_parts parts 0 st") simp_all
  from Cons.IH [OF this(2)] hr show ?case by simp
qed

text \<open>
  A list is predicted only if its flattened elements are arrays with one and the same
  number of rows: otherwise \<^verbatim>\<open>predict\<close> fails before anything is given to the engine.
\<close>

lemma list_chunks_has_rows:
  assumes "list_chunks self d = Inr (k, st)"
  shows "\<exists>n. list_all (has_rows n) (nest_flatten d)"
proof -
  from assms obtain x0 xs where fl: "nest_flatten d = x0 # xs"
    by (cases "nest_flatten d") (simp_all add: list_chunks_def)
  from assms fl obtain dl where dl: "py_len x0 = Inr dl"
    by (cases "py_len x0") (simp_all add: list_chunks_def)
  from assms fl dl obtain n where n0: "py_shape0 x0 = Inr n"
    by (cases "py_shape0 x0") (simp_all add: list_chunks_def)
  from assms fl dl n0 obtain sn where sn: "ceil_div (int n) (batch_size self) = Inr sn"
    by (cases "ceil_div (int n) (batch_size self)") (simp_all add: list_chunks_def)
  let ?st0 = "\<lparr>data_to_be_rdd = replicate (nat sn) [], data_length_list = None\<rparr> :: 'a split_state"
  from assms fl dl n0 sn have "split_flattened (x0 # xs) dl sn ?st0 = Inr st"
    by (cases "split_flattened (x0 # xs) dl sn ?st0")
       (simp_all add: list_chunks_def del: split_flattened.simps)
  from split_flattened_has_rows [OF this] fl show ?thesis by auto
qed

lemma list_rejected_before_engine:
  assumes "\<not> (\<exists>n. list_all (has_rows n) (nest_flatten (PyList xs)))"
  shows "\<exists>e. list_chunks self (PyList xs) = Inl e
             \<and> predict env self (Local (PyList xs)) feature_cols = Inl e"
proof (cases "list_chunks self (PyList xs)")
  case (Inl e)
  then show ?thesis by (simp add: predict_list_def)
next
  case (Inr r)
  obtain k st where "r = (k, st)" by (cases r)
  with Inr list_chunks_has_rows [of self "PyList xs" k st] assms show ?thesis by blast
qed

text \<open>
  The assertions of lines 150 and 153 are what fails when the offending element comes
  after arrays of two or more dimensions.
\<close>

lemma split_flattened_assertion:
  assumes "list_all (has_array_rows n) xs" and "0 < k" and "length (data_to_be_rdd st) = nat k"
    and "\<not> is_ndarray bad \<or> (\<exists>a m. bad = Arr a \<and> nd_len a = Inr m \<and> m \<noteq> n)"
  shows "split_flattened (xs @ bad # ys) n k st = Inl AssertionError"
  using assms(1,3)
proof (induction xs arbitrary: st)
  case Nil
  from assms(4) show ?case
  proof
    assume "\<not> is_ndarray bad"
    then show ?thesis by (cases bad) simp_all
  next
    assume "\<exists>a m. bad = Arr a \<and> nd_len a = Inr m \<and> m \<noteq> n"
    then show ?thesis by auto
  qed
next
  case (Cons x xs)
  from Cons.prems(1) obtain a rest where x: "x = Arr a" and sh: "shape a = n # rest" and r: "rest \<noteq> []"
    by (auto simp: has_array_rows_def split: pyval.splits list.splits)
  have parts: "array_split a k = Inr (map (chunk_of a (nat k)) [0..<nat k])"
    using array_split_eq [OF sh assms(2)] .
  have "list_all (\<lambda>p. \<exists>m r. shape p = m # r \<and> r \<noteq> []) (map (chunk_of a (nat k)) [0..<nat k])"
    using r sh by (simp add: list_all_iff chunk_of_shape)
  from append_parts_ok [of 0 _ st, OF _ this] Cons.prems(2) obtain st1 where
    st1: "append_parts (map (chunk_of a (nat k)) [0..<nat k]) 0 st = Inr st1" by auto
  have "length (data_to_be_rdd st1) = nat k"
    using append_parts_length [OF st1] Cons.prems(2) by simp
  from Cons.IH [OF _ this] Cons.prems(1)
  have "split_flattened (xs @ bad # ys) n k st1 = Inl AssertionError" by simp
  then show ?case using x sh parts st1 by (simp add: nd_len_def)
qed

lemma list_assertion_after_arrays:
  assumes fl: "nest_flatten (PyList l) = xs @ bad # ys" and ne: "xs \<noteq> []"
    and ar: "list_all (has_array_rows n) xs" and n: "1 \<le> n" and nb: "n < 2 ^ 53"
    and b: "1 \<le> batch_size self" and bb: "batch_size self < 2 ^ 1075"
    and bad: "\<not> is_ndarray bad \<or> (\<exists>a m. bad = Arr a \<and> nd_len a = Inr m \<and> m \<noteq> n)"
  shows "predict env self (Local (PyList l)) feature_cols = Inl AssertionError"
proof -
  from ne obtain x0 xs' where xs: "xs = x0 # xs'" by (cases xs) auto
  from ar xs obtain a r where x0: "x0 = Arr a" and sh: "shape a = n # r"
    by (auto simp: has_array_rows_def split: pyval.splits list.splits)
  note c = ceil_div_pos [OF n nb b bb]
  let ?k = "- ((- int n) div batch_size self)"
  let ?st0 = "\<lparr>data_to_be_rdd = replicate (nat ?k) [], data_length_list = None\<rparr> :: 'a split_state"
  have "split_flattened (xs @ bad # ys) n ?k ?st0 = Inl AssertionError"
    by (rule split_flattened_assertion [OF ar c(2) _ bad]) simp
  then have "list_chunks self (PyList l) = Inl AssertionError"
    using fl xs x0 sh c(1) by (simp add: list_chunks_def nd_len_def nd_shape0_def)
  then show ?thesis by (simp add: predict_list_def)
qed

text \<open>
  C2 fails for a list: line 159 binds \<^verbatim>\<open>data_length_list\<close> to the lengths of the rows of
  the last chunk, not to the lengths of the chunks as line 140 does for an array. One array
  of four rows of two numbers each, with batch size 4, is one chunk of four rows; the
  engine answers it with four rows; the lengths are \<open>[2, 2, 2, 2]\<close>, the output is cut to
  its first two rows, and two rows are returned for four rows of input.
\<close>

theorem list_input_loses_rows:
  "nest_flatten (PyList [Arr (NdArray [4, 2] [1, 2, 3, 4, 5, 6, 7, 8 :: nat])])
     = [Arr (NdArray [4, 2] [1, 2, 3, 4, 5, 6, 7, 8])]
   \<and> list_chunks example_estimator (PyList [Arr (NdArray [4, 2] [1, 2, 3, 4, 5, 6, 7, 8 :: nat])])
     = Inr (1, \<lparr>data_to_be_rdd = [[Arr (NdArray [4, 2] [1, 2, 3, 4, 5, 6, 7, 8])]],
                data_length_list = Some [2, 2, 2, 2]\<rparr>)
   \<and> distributed_predict example_env
        [[PyList [Arr (NdArray [4, 2] [1, 2, 3, 4, 5, 6, 7, 8 :: nat])]]]
     = Inr [[NdArray [4, 1] [0, 0, 0, 0]]]
   \<and> predict example_env example_estimator
        (Local (PyList [Arr (NdArray [4, 2] [1, 2, 3, 4, 5, 6, 7, 8 :: nat])])) PyNone
     = Inr (Local (Arr (NdArray [2, 1] [0, 0])))"
  by code_simp

text \<open>
  The same line makes \<^verbatim>\<open>predict\<close> raise for lists of arrays of one dimension, whose rows
  have no length, and for more chunks than the last chunk has rows.
\<close>

lemma list_input_raises:
  "predict example_env example_estimator
     (Local (PyList [Arr (NdArray [3] [1, 2, 3 :: nat])])) PyNone = Inl TypeError
   \<and> predict example_env (example_estimator\<lparr>batch_size := 1\<rparr>)
       (Local (PyList [Arr (NdArray [3, 5] (replicate 15 (0 :: nat)))])) PyNone = Inl IndexError"
  by code_simp

text \<open>An array without rows is not predicted: \<^verbatim>\<open>np.array_split\<close> is asked for no section.\<close>

lemma empty_array_raises:
  "predict example_env example_estimator (Local (Arr (NdArray [0, 2] ([] :: nat list)))) PyNone
     = Inl ValueError"
  by code_simp

text \<open>
  C8 fails where the first flattened element is not an array: its length is taken at line
  144, before the assertion of line 150 is reached, and \<^verbatim>\<open>len(3)\<close> raises TypeError. It
  fails as well for arrays of one dimension with different lengths, where line 159 raises
  TypeError on the first array before the second is looked at.
\<close>

theorem first_element_not_array_type_error:
  "nest_flatten (PyList [PyInt 3, Arr (NdArray [4, 2] [1, 2, 3, 4, 5, 6, 7, 8 :: nat])])
     = [PyInt 3, Arr (NdArray [4, 2] [1, 2, 3, 4, 5, 6, 7, 8])]
   \<and> \<not> is_ndarray (PyInt 3 :: nat pyval)
   \<and> predict example_env example_estimator
        (Local (PyList [PyInt 3, Arr (NdArray [4, 2] [1, 2, 3, 4, 5, 6, 7, 8 :: nat])])) PyNone
     = Inl TypeError
   \<and> predict example_env example_estimator
        (Local (PyList [Arr (NdArray [3] [1, 2, 3 :: nat]), Arr (NdArray [2] [1, 2])])) PyNone
     = Inl TypeError"
  by code_simp

end
